theory Spec2Isabelle
  imports Main "HOL-Library.Word"
begin

section \<open>Common types\<close>

text \<open>
  The firmware targets a 32-bit little-endian core: \<open>int\<close> and \<open>size_t\<close> are 32 bits wide,
  \<open>int16_t\<close> is 16 bits wide. Bytes and header fields are words; the C \<open>int\<close> arithmetic of
  the tone generator is written on \<open>int\<close> with the wrap-around spelled out.
\<close>

type_synonym u8 = "8 word"
type_synonym u16 = "16 word"
type_synonym u32 = "32 word"

datatype esp_err_t =
    ESP_OK
  | ESP_FAIL
  | ESP_ERR_NO_MEM
  | ESP_ERR_INVALID_ARG
  | ESP_ERR_INVALID_STATE
  | ESP_ERR_NOT_FOUND
  | ESP_ERR_TIMEOUT

section \<open>Tone synthesis (embedded\_audio.c)\<close>

text \<open>Two's-complement wrap-around of a 32-bit \<open>int\<close> and of an \<open>int16_t\<close>.\<close>

definition wrap32 :: "int \<Rightarrow> int" where
  "wrap32 x = (x + 2147483648) mod 4294967296 - 2147483648"

definition wrap16 :: "int \<Rightarrow> int" where
  "wrap16 x = (x + 32768) mod 65536 - 32768"

text \<open>C division truncates towards zero.\<close>

definition c_div :: "int \<Rightarrow> int \<Rightarrow> int" where
  "c_div a b = (if (a < 0) = (b < 0) then \<bar>a\<bar> div \<bar>b\<bar> else - (\<bar>a\<bar> div \<bar>b\<bar>))"

definition gen_sample_rate :: int where
  "gen_sample_rate = 44100"

text \<open>\<open>const int samples = (sample_rate * duration_ms) / 1000;\<close>\<close>

definition tone_samples :: "int \<Rightarrow> int" where
  "tone_samples duration_ms = c_div (wrap32 (gen_sample_rate * duration_ms)) 1000"

text \<open>
  The fade applied to one sample inside the synthesis loop:
  \<^verbatim>\<open>
  if (i < samples / 10)                sample = sample * i / (samples / 10);
  else if (i > samples - samples / 10) sample = sample * (samples - i) / (samples / 10);
  \<close>
  \<open>sample\<close> is an \<open>int16_t\<close>, promoted to \<open>int\<close> for the arithmetic and converted back on
  assignment.
\<close>

definition envelope :: "int \<Rightarrow> int \<Rightarrow> int \<Rightarrow> int" where
  "envelope samples i sample =
     (if i < c_div samples 10
        then wrap16 (c_div (wrap32 (sample * i)) (c_div samples 10))
      else if i > wrap32 (samples - c_div samples 10)
        then wrap16 (c_div (wrap32 (sample * wrap32 (samples - i))) (c_div samples 10))
      else sample)"

text \<open>
  The environment of the tone generator. The sine value is computed in floating point by the
  C library; the raw sample \<open>(int16_t)(sin(2.0 * M_PI * frequency * t) * 16000)\<close> at index
  \<open>i\<close> is therefore a parameter \<open>osc frequency i\<close>, an \<open>int16_t\<close> read as a signed
  value. \<open>tx_chan\<close> tells whether the I2S
  channel handle is non-NULL, \<open>heap_fits n\<close> whether \<open>malloc n\<close> succeeds, and
  \<open>i2s_write k\<close> is the result \<open>i2s_channel_write\<close> gives to the \<open>k\<close>-th tone request
  (when that request gets as far as writing).
\<close>

record audio_hw =
  tx_chan :: bool
  heap_fits :: "nat \<Rightarrow> bool"
  i2s_write :: "nat \<Rightarrow> esp_err_t"
  osc :: "int \<Rightarrow> int \<Rightarrow> u16"

text \<open>The synthesis loop \<open>for (int i = 0; i < samples; i++)\<close>, filling both channels.\<close>

function tone_loop :: "(int \<Rightarrow> int) \<Rightarrow> int \<Rightarrow> int \<Rightarrow> int list" where
  "tone_loop raw samples i =
     (if i < samples
        then envelope samples i (raw i) # envelope samples i (raw i) # tone_loop raw samples (i + 1)
      else [])"
  by pat_completeness auto
termination
  by (relation "measure (\<lambda>(raw, samples, i). nat (samples - i))") auto

text \<open>The byte count handed to \<open>malloc\<close>: \<open>samples * 2 * sizeof(int16_t)\<close> as a \<open>size_t\<close>.\<close>

definition tone_alloc_size :: "int \<Rightarrow> nat" where
  "tone_alloc_size samples = nat ((wrap32 (samples * 2) * 2) mod 4294967296)"

text \<open>
  \<open>embedded_audio_generate_tone\<close>: the result code and the interleaved stereo samples that
  reached the I2S channel (none unless the write succeeded). \<open>k\<close> counts the tone requests
  made before this one.
\<close>

definition embedded_audio_generate_tone ::
    "audio_hw \<Rightarrow> nat \<Rightarrow> int \<Rightarrow> int \<Rightarrow> esp_err_t \<times> int list" where
  "embedded_audio_generate_tone hw k frequency duration_ms =
     (if \<not> tx_chan hw then (ESP_ERR_INVALID_STATE, [])
      else let samples = tone_samples duration_ms in
        if \<not> heap_fits hw (tone_alloc_size samples) then (ESP_ERR_NO_MEM, [])
        else let audio_buffer = tone_loop (\<lambda>i. sint (osc hw frequency i)) samples 0;
                 ret = i2s_write hw k
             in if ret \<noteq> ESP_OK then (ret, []) else (ESP_OK, audio_buffer))"

section \<open>Feedback dispatch (embedded\_audio.c, main.c)\<close>

text \<open>
  What the dispatch path does, in order: a call of the tone generator with its frequency,
  duration and result code, or a \<open>vTaskDelay\<close> of so many milliseconds. Beside this trace
  the state keeps the sample blocks that have reached the I2S channel, one per successful
  write, in order.
\<close>

datatype event = Tone int int esp_err_t | Delay int

record audio_state =
  calls :: nat
  trace :: "event list"
  i2s_blocks :: "int list list"

definition play_tone :: "audio_hw \<Rightarrow> int \<Rightarrow> int \<Rightarrow> audio_state \<Rightarrow> esp_err_t \<times> audio_state" where
  "play_tone hw frequency duration_ms s =
     (case embedded_audio_generate_tone hw (calls s) frequency duration_ms of
        (ret, written) \<Rightarrow>
          (ret, s\<lparr> calls := Suc (calls s),
                   trace := trace s @ [Tone frequency duration_ms ret],
                   i2s_blocks := (if ret = ESP_OK then i2s_blocks s @ [written]
                                  else i2s_blocks s) \<rparr>))"

text \<open>The language switch at the head of \<open>embedded_audio_play\<close>.\<close>

definition select_pattern :: "string \<Rightarrow> int \<times> int" where
  "select_pattern language =
     (if language = ''hindi'' then (600, 3)
      else if language = ''gujarati'' then (1000, 2)
      else (800, 1))"

text \<open>
  The pattern loop \<open>for (int i = 0; i < pattern_length; i++)\<close>; the result of the tone
  generator is not looked at.
\<close>

function pattern_loop :: "audio_hw \<Rightarrow> int \<Rightarrow> int \<Rightarrow> int \<Rightarrow> audio_state \<Rightarrow> audio_state" where
  "pattern_loop hw frequency pattern_length i s =
     (if i < pattern_length
        then let s1 = snd (play_tone hw (frequency + i * 100) 200 s);
                 s2 = (if i < pattern_length - 1 then s1\<lparr>trace := trace s1 @ [Delay 100]\<rparr> else s1)
             in pattern_loop hw frequency pattern_length (i + 1) s2
      else s)"
  by pat_completeness auto
termination
  by (relation "measure (\<lambda>(hw, frequency, pattern_length, i, s). nat (pattern_length - i))") auto

definition embedded_audio_play ::
    "audio_hw \<Rightarrow> string \<Rightarrow> string \<Rightarrow> audio_state \<Rightarrow> esp_err_t \<times> audio_state" where
  "embedded_audio_play hw txt language s =
     (case select_pattern language of
        (frequency, pattern_length) \<Rightarrow> (ESP_OK, pattern_loop hw frequency pattern_length 0 s))"

definition embedded_audio_beep :: "audio_hw \<Rightarrow> audio_state \<Rightarrow> esp_err_t \<times> audio_state" where
  "embedded_audio_beep hw s = play_tone hw 800 300 s"

text \<open>The detection result carried by the queue (\<open>ocr_result_t\<close>); the confidence is not used
  by the audio path and is kept as the raw 32 bits of the float.\<close>

record ocr_result =
  ocr_text :: string
  ocr_language :: string
  confidence :: u32
  processing_time_ms :: u32

text \<open>One iteration of \<open>audio_task\<close> after \<open>xQueueReceive\<close> has delivered \<open>result\<close>.\<close>

definition audio_task_handle :: "audio_hw \<Rightarrow> ocr_result \<Rightarrow> audio_state \<Rightarrow> audio_state" where
  "audio_task_handle hw result s =
     (case embedded_audio_play hw (ocr_text result) (ocr_language result) s of
        (audio_err, s1) \<Rightarrow>
          if audio_err \<noteq> ESP_OK then snd (embedded_audio_beep hw s1) else s1)"

section \<open>Detection queue (main.c)\<close>

text \<open>
  Modelled from the spec: \<open>xQueueCreate\<close> and \<open>xQueueSend\<close> belong to the RTOS and are not
  part of the sources. The queue is a bounded FIFO of capacity 5, as created in \<open>app_main\<close>;
  a send with a wait of \<open>ticks\<close> appends when there is room, returns at once without
  storing when the queue is full and \<open>ticks = 0\<close>, and otherwise leaves the caller waiting
  (\<open>None\<close>).
\<close>

definition ocr_queue_length :: nat where
  "ocr_queue_length = 5"

definition xQueueSend :: "ocr_result list \<Rightarrow> ocr_result \<Rightarrow> nat \<Rightarrow> (bool \<times> ocr_result list) option" where
  "xQueueSend q item ticks =
     (if length q < ocr_queue_length then Some (True, q @ [item])
      else if ticks = 0 then Some (False, q)
      else None)"

text \<open>
  The part of one \<open>camera_task\<close> iteration that follows \<open>process_ocr_frame\<close>: the new queue
  and the warnings logged, or \<open>None\<close> if the task were left waiting inside the send.
\<close>

definition camera_task_push ::
    "ocr_result list \<Rightarrow> esp_err_t \<Rightarrow> ocr_result \<Rightarrow> (ocr_result list \<times> string list) option" where
  "camera_task_push q ocr_err result =
     (if ocr_err = ESP_OK \<and> length (ocr_text result) > 0
        then (case xQueueSend q result 0 of
                None \<Rightarrow> None
              | Some (sent, q') \<Rightarrow>
                  Some (q', if sent then [] else [''OCR result queue full, dropping result'']))
      else Some (q, []))"

text \<open>A run of camera iterations, each with a successful detection.\<close>

fun camera_task_pushes :: "ocr_result list \<Rightarrow> ocr_result list \<Rightarrow> (ocr_result list \<times> string list) option" where
  "camera_task_pushes q [] = Some (q, [])"
| "camera_task_pushes q (r # rs) =
     (case camera_task_push q ESP_OK r of
        None \<Rightarrow> None
      | Some (q', w) \<Rightarrow>
          (case camera_task_pushes q' rs of
             None \<Rightarrow> None
           | Some (q'', ws) \<Rightarrow> Some (q'', w @ ws)))"

section \<open>WAV player (wav\_player.c)\<close>

subsection \<open>Header\<close>

record wav_header =
  riff :: "u8 list"
  file_size :: u32
  wave :: "u8 list"
  fmt :: "u8 list"
  fmt_size :: u32
  audio_format :: u16
  num_channels :: u16
  sample_rate :: u32
  byte_rate :: u32
  block_align :: u16
  bits_per_sample :: u16
  data :: "u8 list"
  data_size :: u32

text \<open>Little-endian fields of the packed header, as \<open>fread\<close> lays them into the struct.\<close>

fun le_nat :: "u8 list \<Rightarrow> nat" where
  "le_nat [] = 0"
| "le_nat (b # bs) = unat b + 256 * le_nat bs"

definition le16 :: "u8 list \<Rightarrow> u16" where
  "le16 bs = of_nat (le_nat (take 2 bs))"

definition le32 :: "u8 list \<Rightarrow> u32" where
  "le32 bs = of_nat (le_nat (take 4 bs))"

definition parse_header :: "u8 list \<Rightarrow> wav_header" where
  "parse_header bs =
     \<lparr> riff = take 4 bs,
       file_size = le32 (drop 4 bs),
       wave = take 4 (drop 8 bs),
       fmt = take 4 (drop 12 bs),
       fmt_size = le32 (drop 16 bs),
       audio_format = le16 (drop 20 bs),
       num_channels = le16 (drop 22 bs),
       sample_rate = le32 (drop 24 bs),
       byte_rate = le32 (drop 28 bs),
       block_align = le16 (drop 32 bs),
       bits_per_sample = le16 (drop 34 bs),
       data = take 4 (drop 36 bs),
       data_size = le32 (drop 40 bs) \<rparr>"

definition wav_header_size :: nat where
  "wav_header_size = 44"

text \<open>A C string literal: the characters and the terminating NUL.\<close>

definition c_str :: "string \<Rightarrow> u8 list" where
  "c_str s = map of_char s @ [0]"

text \<open>
  \<open>strncmp\<close>: compares at most \<open>n\<close> characters and stops after a common NUL. The last
  equation is never reached by the player, whose arguments hold at least \<open>n\<close> bytes.
\<close>

fun strncmp :: "u8 list \<Rightarrow> u8 list \<Rightarrow> nat \<Rightarrow> int" where
  "strncmp s1 s2 0 = 0"
| "strncmp (a # s1) (b # s2) (Suc n) =
     (if a \<noteq> b then uint a - uint b else if a = 0 then 0 else strncmp s1 s2 n)"
| "strncmp s1 s2 (Suc n) = 0"

subsection \<open>Ring buffer and player state\<close>

text \<open>
  Modelled from the spec: the ring buffer primitives belong to the RTOS and are not part of
  the sources. The buffer is a byte-oriented FIFO. An offer either queues the whole block or,
  when no room appears within the bounded wait, queues nothing; whether room appears depends
  on the consumer running on the other side and is an input of the model (\<open>room\<close>). A
  receive hands out the pending byte run; on an empty buffer it gives NULL after a bounded
  wait and never returns while the wait is unbounded and no data arrives (\<open>Blocked\<close>).
  Returning an item frees its bytes.
\<close>

datatype ticks = Ticks nat | portMAX_DELAY

datatype rb_item = Item "u8 list" | Null | Blocked

definition xRingbufferSend :: "bool \<Rightarrow> u8 list \<Rightarrow> u8 list \<Rightarrow> bool \<times> u8 list" where
  "xRingbufferSend room rb block = (if room then (True, rb @ block) else (False, rb))"

definition xRingbufferReceive :: "u8 list \<Rightarrow> ticks \<Rightarrow> rb_item" where
  "xRingbufferReceive rb wait =
     (if rb \<noteq> [] then Item rb else if wait = portMAX_DELAY then Blocked else Null)"

definition vRingbufferReturnItem :: "u8 list \<Rightarrow> u8 list \<Rightarrow> u8 list" where
  "vRingbufferReturnItem rb item = drop (length item) rb"

text \<open>
  The module's static state, together with the bytes that have reached the I2S channel from
  the playback task.
\<close>

record player =
  is_playing :: bool
  ring_buffer :: "u8 list"
  playback_task_suspended :: bool
  i2s_out :: "u8 list"

text \<open>The state \<open>wav_player_init\<close> leaves behind when every driver call succeeds.\<close>

definition wav_player_init :: player where
  "wav_player_init =
     \<lparr> is_playing = False, ring_buffer = [], playback_task_suspended = True, i2s_out = [] \<rparr>"

subsection \<open>Stop\<close>

text \<open>The drain loop of \<open>wav_player_stop\<close>: receive with no wait, return the item, repeat.\<close>

function rb_drain :: "u8 list \<Rightarrow> u8 list" where
  "rb_drain rb =
     (case xRingbufferReceive rb (Ticks 0) of
        Item item \<Rightarrow> rb_drain (vRingbufferReturnItem rb item)
      | Null \<Rightarrow> rb
      | Blocked \<Rightarrow> rb)"
  by pat_completeness auto
termination
  by (relation "measure length")
     (auto simp: xRingbufferReceive_def vRingbufferReturnItem_def split: if_splits)

definition wav_player_stop :: "player \<Rightarrow> esp_err_t \<times> player" where
  "wav_player_stop s =
     (if \<not> is_playing s then (ESP_OK, s)
      else (ESP_OK, s\<lparr> is_playing := False,
                       ring_buffer := rb_drain (ring_buffer s),
                       playback_task_suspended := True \<rparr>))"

definition wav_player_is_playing :: "player \<Rightarrow> bool" where
  "wav_player_is_playing s = is_playing s"

subsection \<open>Streaming\<close>

definition WAV_BUFFER_SIZE :: nat where
  "WAV_BUFFER_SIZE = 4096"

definition I2S_CHANNELS :: nat where
  "I2S_CHANNELS = 2"

text \<open>
  \<open>uint8_t buffer[WAV_BUFFER_SIZE]\<close> lives on the stack. An access outside it has no defined
  behaviour; the model stops there and reports the byte offset of the access.
\<close>

datatype ub = OutOfBounds nat

text \<open>\<open>((uint16_t*)buffer)[i]\<close>, read and written, on a little-endian core.\<close>

definition load16 :: "u8 list \<Rightarrow> nat \<Rightarrow> ub + u16" where
  "load16 buf i =
     (if 2 * i + 1 < length buf then Inr (word_cat (buf ! (2 * i + 1)) (buf ! (2 * i)))
      else Inl (OutOfBounds (2 * i)))"

definition store16 :: "u8 list \<Rightarrow> nat \<Rightarrow> u16 \<Rightarrow> ub + u8 list" where
  "store16 buf i v =
     (if 2 * i + 1 < length buf
        then Inr (buf[2 * i := ucast v, 2 * i + 1 := ucast (drop_bit 8 v)])
      else Inl (OutOfBounds (2 * i)))"

text \<open>
  The mono-to-stereo loop \<open>for (int i = bytes_read/2 - 1; i >= 0; i--)\<close>. The first argument
  is \<open>i + 1\<close>, the number of samples still to be expanded.
\<close>

fun upmix_loop :: "nat \<Rightarrow> u8 list \<Rightarrow> ub + u8 list" where
  "upmix_loop 0 buf = Inr buf"
| "upmix_loop (Suc i) buf =
     (case load16 buf i of
        Inl e \<Rightarrow> Inl e
      | Inr sample \<Rightarrow>
          (case store16 buf (i * 2) sample of
             Inl e \<Rightarrow> Inl e
           | Inr buf1 \<Rightarrow>
               (case store16 buf1 (i * 2 + 1) sample of
                  Inl e \<Rightarrow> Inl e
                | Inr buf2 \<Rightarrow> upmix_loop i buf2)))"

text \<open>\<open>fread(buffer, 1, to_read, file)\<close>: the bytes delivered and the rest of the file.\<close>

definition fread :: "u8 list \<Rightarrow> nat \<Rightarrow> u8 list \<times> u8 list" where
  "fread file n = (take n file, drop n file)"

text \<open>
  The conversion step of one block: the buffer after it and the byte count handed on.
\<close>

definition convert_block :: "wav_header \<Rightarrow> u8 list \<Rightarrow> nat \<Rightarrow> ub + (u8 list \<times> nat)" where
  "convert_block header buf bytes_read =
     (if num_channels header = 1 \<and> I2S_CHANNELS = 2
        then (case upmix_loop (bytes_read div 2) buf of
                Inl e \<Rightarrow> Inl e
              | Inr buf' \<Rightarrow> Inr (buf', bytes_read * 2))
      else Inr (buf, bytes_read))"

text \<open>The prefix of the buffer that \<open>xRingbufferSend\<close> copies.\<close>

definition block_of :: "u8 list \<Rightarrow> nat \<Rightarrow> ub + u8 list" where
  "block_of buf n = (if n \<le> length buf then Inr (take n buf) else Inl (OutOfBounds (length buf)))"

text \<open>
  One pass through the body of the streaming loop, entered with \<open>total_read < data_size\<close>.
  \<open>None\<close> is the \<open>break\<close> at end of file; otherwise the new file position, buffer,
  \<open>total_read\<close> and ring buffer.
\<close>

definition stream_block ::
    "wav_header \<Rightarrow> bool \<Rightarrow> u8 list \<Rightarrow> u8 list \<Rightarrow> nat \<Rightarrow> u8 list
      \<Rightarrow> ub + (u8 list \<times> u8 list \<times> nat \<times> u8 list) option" where
  "stream_block header room file buf total_read rb =
     (let to_read = (if unat (data_size header) - total_read > WAV_BUFFER_SIZE
                       then WAV_BUFFER_SIZE else unat (data_size header) - total_read);
          (bytes, file') = fread file to_read;
          bytes_read = length bytes
      in if bytes_read = 0 then Inr None
         else (case convert_block header (bytes @ drop bytes_read buf) bytes_read of
                 Inl e \<Rightarrow> Inl e
               | Inr (buf', n) \<Rightarrow>
                   (case block_of buf' n of
                      Inl e \<Rightarrow> Inl e
                    | Inr block \<Rightarrow>
                        Inr (Some (file', buf',
                                   total_read + n div (if num_channels header = 1 \<and> I2S_CHANNELS = 2 then 2 else 1),
                                   snd (xRingbufferSend room rb block))))))"

text \<open>A pass that does not leave the loop reads at least one byte.\<close>

lemma stream_block_progress:
  assumes "stream_block header room file buf total_read rb = Inr (Some (file', buf', total', rb'))"
  shows "total_read < total'"
  using assms
  by (auto simp: stream_block_def convert_block_def fread_def Let_def
           split: if_splits sum.splits prod.splits)

text \<open>
  The loop \<open>while (total_read < header.data_size)\<close>. \<open>room k\<close> tells whether the \<open>k\<close>-th
  offer of this call finds room in the ring buffer within its 100 ms wait.
\<close>

function stream_loop ::
    "wav_header \<Rightarrow> (nat \<Rightarrow> bool) \<Rightarrow> nat \<Rightarrow> u8 list \<Rightarrow> u8 list \<Rightarrow> nat \<Rightarrow> u8 list \<Rightarrow> ub + u8 list" where
  "stream_loop header room k file buf total_read rb =
     (if total_read < unat (data_size header)
        then (case stream_block header (room k) file buf total_read rb of
                Inl e \<Rightarrow> Inl e
              | Inr None \<Rightarrow> Inr rb
              | Inr (Some (file', buf', total', rb')) \<Rightarrow>
                  stream_loop header room (Suc k) file' buf' total' rb')
      else Inr rb)"
  by pat_completeness auto
termination
  by (relation "measure (\<lambda>(header, room, k, file, buf, total_read, rb).
                  unat (data_size header) - total_read)")
     (auto dest: stream_block_progress)

subsection \<open>Play\<close>

text \<open>
  \<open>wav_player_play_file\<close>. \<open>fs\<close> is the file system (\<open>fopen\<close> fails on \<open>None\<close>), and
  \<open>stack i\<close> is the byte found at offset \<open>i\<close> of the uninitialised buffer.
\<close>

definition wav_player_play_file ::
    "(string \<Rightarrow> u8 list option) \<Rightarrow> (nat \<Rightarrow> bool) \<Rightarrow> (nat \<Rightarrow> u8) \<Rightarrow> string \<Rightarrow> player
      \<Rightarrow> ub + (esp_err_t \<times> player)" where
  "wav_player_play_file fs room stack filename s0 =
     (let s = (if is_playing s0 then snd (wav_player_stop s0) else s0) in
      case fs filename of
        None \<Rightarrow> Inr (ESP_ERR_NOT_FOUND, s)
      | Some file \<Rightarrow>
          if length file < wav_header_size then Inr (ESP_ERR_INVALID_ARG, s)
          else let header = parse_header (take wav_header_size file) in
            if strncmp (riff header) (c_str ''RIFF'') 4 \<noteq> 0 \<or>
               strncmp (wave header) (c_str ''WAVE'') 4 \<noteq> 0 \<or>
               strncmp (data header) (c_str ''data'') 4 \<noteq> 0
              then Inr (ESP_ERR_INVALID_ARG, s)
            else let s1 = s\<lparr> is_playing := True \<rparr> in
              (case stream_loop header room 0 (drop wav_header_size file)
                      (map stack [0..<WAV_BUFFER_SIZE]) 0 (ring_buffer s1) of
                 Inl e \<Rightarrow> Inl e
               | Inr rb \<Rightarrow>
                   Inr (ESP_OK, s1\<lparr> ring_buffer := rb, playback_task_suspended := False \<rparr>)))"

subsection \<open>Playback task\<close>

text \<open>
  One pass through the body of \<open>playback_task\<close>'s loop; \<open>ret\<close> is the result of
  \<open>i2s_channel_write\<close> should the pass get that far. A pass that finds the buffer empty stays
  inside \<open>xRingbufferReceive\<close>: the state does not change.
\<close>

definition playback_task_iter :: "esp_err_t \<Rightarrow> player \<Rightarrow> player" where
  "playback_task_iter ret s =
     (case xRingbufferReceive (ring_buffer s) portMAX_DELAY of
        Item item \<Rightarrow>
          s\<lparr> i2s_out := (if ret = ESP_OK then i2s_out s @ item else i2s_out s),
             ring_buffer := vRingbufferReturnItem (ring_buffer s) item \<rparr>
      | Null \<Rightarrow> s\<lparr> is_playing := False, playback_task_suspended := True \<rparr>
      | Blocked \<Rightarrow> s)"

text \<open>The task left to run for \<open>n\<close> passes; a suspended task does nothing.\<close>

fun playback_task :: "(nat \<Rightarrow> esp_err_t) \<Rightarrow> nat \<Rightarrow> player \<Rightarrow> player" where
  "playback_task rets 0 s = s"
| "playback_task rets (Suc n) s =
     (let s' = playback_task rets n s
      in if playback_task_suspended s' then s' else playback_task_iter (rets n) s')"

text \<open>
  The states the module can be in: after \<open>wav_player_init\<close>, any sequence of calls of the
  public functions and of passes of the playback task.
\<close>

inductive reachable :: "player \<Rightarrow> bool" where
  init: "reachable wav_player_init"
| play: "reachable s \<Longrightarrow> wav_player_play_file fs room stack filename s = Inr (r, s') \<Longrightarrow> reachable s'"
| stop: "reachable s \<Longrightarrow> reachable (snd (wav_player_stop s))"
| task: "reachable s \<Longrightarrow> reachable (playback_task rets n s)"

section \<open>The specification's tones and tone patterns\<close>

text \<open>
  The tone as the specification words it: \<open>N = rate * duration / 1000\<close> stereo pairs of the
  wave at the requested frequency, with a linear fade-in over the first tenth of the samples
  and a linear fade-out over the last tenth. The ramp scales a sample \<open>r\<close> by \<open>k / (N / 10)\<close>,
  rounded towards zero; \<open>sine frequency i\<close> is the sample of the sine at index \<open>i\<close>.
\<close>

definition spec_fade :: "int \<Rightarrow> int \<Rightarrow> int \<Rightarrow> int" where
  "spec_fade N i r =
     (if i < N div 10 then sgn r * (\<bar>r\<bar> * i div (N div 10))
      else if N - N div 10 < i then sgn r * (\<bar>r\<bar> * (N - i) div (N div 10))
      else r)"

definition spec_tone :: "(int \<Rightarrow> int \<Rightarrow> int) \<Rightarrow> int \<Rightarrow> int \<Rightarrow> int list" where
  "spec_tone sine frequency duration_ms =
     concat (map (\<lambda>i. [spec_fade (44100 * duration_ms div 1000) (int i) (sine frequency (int i)),
                       spec_fade (44100 * duration_ms div 1000) (int i) (sine frequency (int i))])
                 [0..<nat (44100 * duration_ms div 1000)])"

text \<open>
  The dispatcher's table and pattern as the specification words them: a base frequency and a
  beep count per language; beep \<open>i\<close> sounds at \<open>base + i * 100\<close> Hz for 200 ms, with a
  100 ms gap between consecutive beeps and none after the last. \<open>spec_beeps\<close> is the trace
  of such a pattern when beep \<open>i\<close> ends with the result \<open>rets ! i\<close>, and \<open>spec_tones\<close> are the
  tones themselves.
\<close>

fun intersperse :: "'a \<Rightarrow> 'a list \<Rightarrow> 'a list" where
  "intersperse a [] = []"
| "intersperse a [x] = [x]"
| "intersperse a (x # y # ys) = x # a # intersperse a (y # ys)"

definition spec_tone_table :: "string \<Rightarrow> int \<times> nat" where
  "spec_tone_table language =
     (if language = ''hindi'' then (600, 3)
      else if language = ''gujarati'' then (1000, 2)
      else (800, 1))"

definition spec_beeps :: "int \<Rightarrow> nat \<Rightarrow> esp_err_t list \<Rightarrow> event list" where
  "spec_beeps base n rets =
     intersperse (Delay 100) (map (\<lambda>i. Tone (base + int i * 100) 200 (rets ! i)) [0..<n])"

definition spec_tones :: "(int \<Rightarrow> int \<Rightarrow> int) \<Rightarrow> int \<Rightarrow> nat \<Rightarrow> int list list" where
  "spec_tones sine base n = map (\<lambda>i. spec_tone sine (base + int i * 100) 200) [0..<n]"

section \<open>Auxiliary notions and concrete inputs\<close>

text \<open>The buffer seen as 16-bit samples.\<close>

definition sample_at :: "u8 list \<Rightarrow> nat \<Rightarrow> u16" where
  "sample_at buf i = word_cat (buf ! (2 * i + 1)) (buf ! (2 * i))"

text \<open>When the player is idle nothing is queued.\<close>

definition idle_empty :: "player \<Rightarrow> bool" where
  "idle_empty s = (is_playing s \<or> ring_buffer s = [])"

text \<open>A working audio path whose oscillator sits at full amplitude.\<close>

definition hw0 :: audio_hw where
  "hw0 = \<lparr> tx_chan = True, heap_fits = (\<lambda>n. n \<le> 65536), i2s_write = (\<lambda>k. ESP_OK), osc = (\<lambda>f i. 16000) \<rparr>"

text \<open>
  A working audio path with room for a tone of any length, whose oscillator sits at 15999,
  the raw sample of an 800 Hz sine next to a crest (as at index 134629).
\<close>

definition hw_crest :: audio_hw where
  "hw_crest = \<lparr> tx_chan = True, heap_fits = (\<lambda>n. True), i2s_write = (\<lambda>k. ESP_OK), osc = (\<lambda>f i. 15999) \<rparr>"

text \<open>
  A container file: the 44-byte header with the given first tag, channel count and the two
  low bytes of the data length, followed by the payload.
\<close>

definition wav_bytes :: "string \<Rightarrow> u8 \<Rightarrow> u8 \<Rightarrow> u8 \<Rightarrow> u8 list \<Rightarrow> u8 list" where
  "wav_bytes tag ch n0 n1 payload =
     map of_char tag @ [0, 0, 0, 0] @ map of_char ''WAVE'' @ map of_char ''fmt '' @
     [16, 0, 0, 0,  1, 0,  ch, 0,  0x44, 0xAC, 0, 0,  0x10, 0xB1, 2, 0,  4, 0,  16, 0] @
     map of_char ''data'' @ [n0, n1, 0, 0] @ payload"

definition stereo_file :: "u8 list" where
  "stereo_file = wav_bytes ''RIFF'' 2 8 0 [1, 2, 3, 4, 5, 6, 7, 8, 9, 10]"

definition bad_file :: "u8 list" where
  "bad_file = wav_bytes ''RIFX'' 2 8 0 [1, 2, 3, 4, 5, 6, 7, 8, 9, 10]"

definition mono_file :: "u8 list" where
  "mono_file = wav_bytes ''RIFF'' 1 0 16 (replicate 4096 1)"

text \<open>An audio path whose first write times out and whose later writes succeed.\<close>

definition hw_write_fails :: audio_hw where
  "hw_write_fails =
     \<lparr> tx_chan = True, heap_fits = (\<lambda>n. n \<le> 65536),
       i2s_write = (\<lambda>k. if k = 0 then ESP_ERR_TIMEOUT else ESP_OK), osc = (\<lambda>f i. 16000) \<rparr>"

text \<open>Detection results and the dispatcher's state before the first request.\<close>

definition bpm_english :: ocr_result where
  "bpm_english = \<lparr> ocr_text = ''BPM'', ocr_language = ''english'', confidence = 0,
                   processing_time_ms = 0 \<rparr>"

definition sign :: "string \<Rightarrow> ocr_result" where
  "sign t = \<lparr> ocr_text = t, ocr_language = ''english'', confidence = 0, processing_time_ms = 0 \<rparr>"

definition audio_idle :: audio_state where
  "audio_idle = \<lparr> calls = 0, trace = [], i2s_blocks = [] \<rparr>"

text \<open>The player after \<open>stereo_file\<close> has been queued from the initial state.\<close>

definition stereo_played :: player where
  "stereo_played =
     \<lparr> is_playing = True, ring_buffer = [1, 2, 3, 4, 5, 6, 7, 8],
       playback_task_suspended = False, i2s_out = [] \<rparr>"

declare tone_loop.simps [simp del] pattern_loop.simps [simp del]
declare stream_loop.simps [simp del] rb_drain.simps [simp del]

section \<open>Tone generator\<close>

lemma int_div_less:
  fixes a b M :: int
  assumes "a < b * M" "0 < M"
  shows "a div M < b"
proof (rule ccontr)
  assume "\<not> a div M < b"
  then have "b \<le> a div M" by simp
  then have "M * b \<le> M * (a div M)" using assms(2) by (simp add: mult_left_mono)
  moreover have "a = M * (a div M) + a mod M" by simp
  moreover have "0 \<le> a mod M" using assms(2) by simp
  ultimately have "M * b \<le> a" by linarith
  with assms(1) show False by (simp add: mult.commute)
qed

lemma wrap32_id: "- 2147483648 \<le> x \<Longrightarrow> x < 2147483648 \<Longrightarrow> wrap32 x = x"
  by (simp add: wrap32_def)

lemma wrap16_id: "- 32768 \<le> x \<Longrightarrow> x < 32768 \<Longrightarrow> wrap16 x = x"
  by (simp add: wrap16_def)

lemma c_div_nonneg: "0 \<le> a \<Longrightarrow> 0 < b \<Longrightarrow> c_div a b = a div b"
  by (simp add: c_div_def)

lemma abs_c_div: "0 < b \<Longrightarrow> \<bar>c_div a b\<bar> = \<bar>a\<bar> div b"
  by (cases "a < 0") (simp_all add: c_div_def pos_imp_zdiv_nonneg_iff)

lemma tone_samples_exact:
  assumes "0 \<le> d" "d \<le> 48695"
  shows "tone_samples d = 44100 * d div 1000"
proof -
  have "44100 * d < 2147483648" using assms by simp
  moreover have "0 \<le> 44100 * d" using assms by simp
  ultimately show ?thesis
    by (simp add: tone_samples_def gen_sample_rate_def wrap32_id c_div_nonneg)
qed

lemma tone_samples_200: "tone_samples 200 = 8820"
  by (simp add: tone_samples_exact)

lemma tone_alloc_size_exact:
  "0 \<le> n \<Longrightarrow> n < 536870912 \<Longrightarrow> tone_alloc_size n = nat (4 * n)"
  by (simp add: tone_alloc_size_def wrap32_id)

lemma tone_loop_length: "length (tone_loop raw n i) = 2 * nat (n - i)"
proof (induction raw n i rule: tone_loop.induct)
  case (1 raw samples i)
  show ?case
  proof (cases "i < samples")
    case True
    then have "nat (samples - i) = Suc (nat (samples - (i + 1)))" by simp
    with True 1 show ?thesis by (subst tone_loop.simps) simp
  next
    case False
    then show ?thesis by (subst tone_loop.simps) simp
  qed
qed

lemma tone_loop_nth:
  "k < nat (n - i) \<Longrightarrow>
     tone_loop raw n i ! (2 * k) = envelope n (i + int k) (raw (i + int k)) \<and>
     tone_loop raw n i ! (2 * k + 1) = envelope n (i + int k) (raw (i + int k))"
proof (induction raw n i arbitrary: k rule: tone_loop.induct)
  case (1 raw samples i)
  from "1.prems" have lt: "i < samples" by simp
  have unfold: "tone_loop raw samples i =
      envelope samples i (raw i) # envelope samples i (raw i) # tone_loop raw samples (i + 1)"
    using lt by (subst tone_loop.simps) simp
  show ?case
  proof (cases k)
    case 0
    then show ?thesis by (subst (1 2) unfold) simp
  next
    case (Suc k')
    with "1.prems" have "k' < nat (samples - (i + 1))" by simp
    have eq: "i + 1 + int k' = i + int k" by (simp add: Suc)
    from "1.IH" [OF lt \<open>k' < nat (samples - (i + 1))\<close>] show ?thesis
      by (subst (1 2) unfold) (simp add: Suc eq [unfolded Suc])
  qed
qed

text \<open>The magnitude of a faded sample, when the product stays inside \<open>int\<close>.\<close>

lemma fade_bound:
  fixes r m M :: int
  assumes r: "\<bar>r\<bar> \<le> 32768" and m: "0 \<le> m" "m < M"
  shows "\<bar>r\<bar> * m div M < 32768"
proof -
  have "\<bar>r\<bar> * m \<le> 32768 * m" using r m by (simp add: mult_right_mono)
  also have "\<dots> < 32768 * M" using m by simp
  finally have "\<bar>r\<bar> * m < 32768 * M" .
  then show ?thesis using m
    by (intro int_div_less) simp_all
qed

lemma fade_value:
  assumes r: "- 32768 \<le> r" "r \<le> 32767" and ov: "\<bar>r\<bar> * M < 2147483648"
    and m: "0 \<le> m" "m < M"
  shows "\<bar>wrap16 (c_div (wrap32 (r * m)) M)\<bar> = \<bar>r\<bar> * m div M"
proof -
  have M: "0 < M" using m by simp
  have "\<bar>r * m\<bar> = \<bar>r\<bar> * m" using m by (simp add: abs_mult)
  also have "\<dots> \<le> \<bar>r\<bar> * M" using m by (simp add: mult_left_mono)
  finally have small: "\<bar>r * m\<bar> < 2147483648" using ov by simp
  then have w: "wrap32 (r * m) = r * m" by (intro wrap32_id) simp_all
  have a: "\<bar>c_div (r * m) M\<bar> = \<bar>r\<bar> * m div M"
    using M m by (simp add: abs_c_div abs_mult)
  have "\<bar>r\<bar> * m div M < 32768"
    using r m by (intro fade_bound) simp_all
  with a have "\<bar>c_div (r * m) M\<bar> < 32768" by simp
  then have "wrap16 (c_div (r * m) M) = c_div (r * m) M"
    by (intro wrap16_id) simp_all
  with w a show ?thesis by simp
qed

lemma envelope_fade_in:
  assumes "0 \<le> N" "- 32768 \<le> r" "r \<le> 32767" "\<bar>r\<bar> * (N div 10) < 2147483648"
    and "0 \<le> i" "i < N div 10"
  shows "\<bar>envelope N i r\<bar> = \<bar>r\<bar> * i div (N div 10)"
  using assms by (simp add: envelope_def c_div_nonneg fade_value)

lemma envelope_fade_out:
  assumes "0 \<le> N" "N < 2147483648" "- 32768 \<le> r" "r \<le> 32767"
    and "\<bar>r\<bar> * (N div 10) < 2147483648"
    and "N - N div 10 < i" "i < N"
  shows "\<bar>envelope N i r\<bar> = \<bar>r\<bar> * (N - i) div (N div 10)"
proof -
  have M: "N div 10 \<le> N - N div 10" using assms(1) by simp
  have w1: "wrap32 (N - N div 10) = N - N div 10"
    using assms by (intro wrap32_id) simp_all
  have w2: "wrap32 (N - i) = N - i"
    using assms by (intro wrap32_id) simp_all
  show ?thesis
    using assms M by (simp add: envelope_def c_div_nonneg fade_value w1 w2)
qed

lemma envelope_plateau:
  assumes "0 \<le> N" "N < 2147483648" "0 < N div 10"
  shows "envelope N (N - N div 10) r = r"
proof -
  have "wrap32 (N - N div 10) = N - N div 10"
    using assms by (intro wrap32_id) simp_all
  moreover have "N div 10 \<le> N - N div 10" using assms by simp
  ultimately show ?thesis using assms by (simp add: envelope_def c_div_nonneg)
qed

lemma fade_in_mono:
  assumes "0 \<le> N" "- 32768 \<le> r" "r \<le> 32767" "\<bar>r\<bar> * (N div 10) < 2147483648"
    and "0 \<le> i" "i \<le> j" "j < N div 10"
  shows "\<bar>envelope N i r\<bar> \<le> \<bar>envelope N j r\<bar>"
proof -
  have "\<bar>r\<bar> * i \<le> \<bar>r\<bar> * j" using assms by (simp add: mult_left_mono)
  then have "\<bar>r\<bar> * i div (N div 10) \<le> \<bar>r\<bar> * j div (N div 10)"
    using assms by (intro zdiv_mono1) simp_all
  then show ?thesis using assms by (simp add: envelope_fade_in)
qed

lemma fade_out_mono:
  assumes N: "0 \<le> N" "N < 2147483648" and r: "- 32768 \<le> r" "r \<le> 32767"
    and ov: "\<bar>r\<bar> * (N div 10) < 2147483648"
    and ij: "N - N div 10 \<le> i" "i \<le> j" "j < N"
  shows "\<bar>envelope N j r\<bar> \<le> \<bar>envelope N i r\<bar>"
proof (cases "j = N - N div 10")
  case True
  with ij have "i = j" by simp
  then show ?thesis by simp
next
  case False
  with ij have j: "N - N div 10 < j" by simp
  then have M: "0 < N div 10" using ij by simp
  have ej: "\<bar>envelope N j r\<bar> = \<bar>r\<bar> * (N - j) div (N div 10)"
    using N r ov j ij by (intro envelope_fade_out) simp_all
  show ?thesis
  proof (cases "i = N - N div 10")
    case True
    have "\<bar>r\<bar> * (N - j) \<le> \<bar>r\<bar> * (N div 10)"
      using j by (simp add: mult_left_mono)
    then have "\<bar>r\<bar> * (N - j) div (N div 10) \<le> \<bar>r\<bar> * (N div 10) div (N div 10)"
      using M by (intro zdiv_mono1) simp_all
    also have "\<dots> = \<bar>r\<bar>" using M by simp
    finally show ?thesis using N M by (simp add: ej True envelope_plateau)
  next
    case False
    with ij have i: "N - N div 10 < i" by simp
    have ei: "\<bar>envelope N i r\<bar> = \<bar>r\<bar> * (N - i) div (N div 10)"
      using N r ov i ij by (intro envelope_fade_out) simp_all
    have "\<bar>r\<bar> * (N - j) \<le> \<bar>r\<bar> * (N - i)" using ij by (simp add: mult_left_mono)
    then have "\<bar>r\<bar> * (N - j) div (N div 10) \<le> \<bar>r\<bar> * (N - i) div (N div 10)"
      using M by (intro zdiv_mono1) simp_all
    then show ?thesis by (simp add: ej ei)
  qed
qed

text \<open>The code's fade is the specification's linear ramp while the product stays inside \<open>int\<close>.\<close>

lemma c_div_sgn: "0 < b \<Longrightarrow> c_div a b = sgn a * (\<bar>a\<bar> div b)"
  by (cases "a < 0"; cases "a = 0") (simp_all add: c_div_def)

lemma fade_exact:
  assumes r: "- 32768 \<le> r" "r \<le> 32767" and ov: "\<bar>r\<bar> * M < 2147483648"
    and m: "0 \<le> m" "m < M"
  shows "wrap16 (c_div (wrap32 (r * m)) M) = sgn r * (\<bar>r\<bar> * m div M)"
proof -
  have M: "0 < M" using m by simp
  have "\<bar>r * m\<bar> = \<bar>r\<bar> * m" using m by (simp add: abs_mult)
  also have "\<dots> \<le> \<bar>r\<bar> * M" using m by (simp add: mult_left_mono)
  finally have "\<bar>r * m\<bar> < 2147483648" using ov by simp
  then have w: "wrap32 (r * m) = r * m" by (intro wrap32_id) simp_all
  have q: "0 \<le> \<bar>r\<bar> * m div M" using M m by (simp add: pos_imp_zdiv_nonneg_iff)
  have c: "c_div (r * m) M = sgn r * (\<bar>r\<bar> * m div M)"
  proof (cases "m = 0")
    case True
    then show ?thesis using M by (simp add: c_div_sgn)
  next
    case False
    with m have "0 < m" by simp
    then have "sgn (r * m) = sgn r" by (simp add: sgn_mult)
    then show ?thesis using M m by (simp add: c_div_sgn abs_mult)
  qed
  have "\<bar>r\<bar> * m div M < 32768"
    using r m by (intro fade_bound) simp_all
  with q have "\<bar>sgn r * (\<bar>r\<bar> * m div M)\<bar> < 32768"
    by (simp add: abs_mult abs_sgn_eq)
  then have "wrap16 (sgn r * (\<bar>r\<bar> * m div M)) = sgn r * (\<bar>r\<bar> * m div M)"
    by (intro wrap16_id) simp_all
  with w c show ?thesis by simp
qed

lemma envelope_spec_fade:
  assumes N: "0 \<le> N" "N < 2147483648" and r: "- 32768 \<le> r" "r \<le> 32767"
    and ov: "\<bar>r\<bar> * (N div 10) < 2147483648" and i: "0 \<le> i" "i < N"
  shows "envelope N i r = spec_fade N i r"
proof -
  have M: "c_div N 10 = N div 10" using N by (simp add: c_div_nonneg)
  have w1: "wrap32 (N - N div 10) = N - N div 10"
    using N by (intro wrap32_id) simp_all
  have w2: "wrap32 (N - i) = N - i"
    using N i by (intro wrap32_id) simp_all
  show ?thesis
  proof (cases "i < N div 10")
    case True
    then show ?thesis
      using fade_exact [OF r ov i(1)] by (simp add: envelope_def spec_fade_def M)
  next
    case False
    show ?thesis
    proof (cases "N - N div 10 < i")
      case True
      then have "0 \<le> N - i" "N - i < N div 10" using i by simp_all
      from fade_exact [OF r ov this] show ?thesis
        using False True by (simp add: envelope_def spec_fade_def M w1 w2)
    next
      case no: False
      with False show ?thesis by (simp add: envelope_def spec_fade_def M w1)
    qed
  qed
qed

lemma tone_loop_spec:
  assumes "N < 2147483648"
    and "\<forall>k. i \<le> k \<and> k < N \<longrightarrow>
           - 32768 \<le> raw k \<and> raw k \<le> 32767 \<and> \<bar>raw k\<bar> * (N div 10) < 2147483648"
    and "0 \<le> i"
  shows "tone_loop raw N i =
           concat (map (\<lambda>k. [spec_fade N (int k) (raw (int k)), spec_fade N (int k) (raw (int k))])
                       [nat i..<nat N])"
  using assms
proof (induction raw N i rule: tone_loop.induct)
  case (1 raw samples i)
  show ?case
  proof (cases "i < samples")
    case False
    then have "[nat i..<nat samples] = []" by simp
    with False show ?thesis by (subst tone_loop.simps) simp
  next
    case True
    have N0: "0 \<le> samples" using True "1.prems"(3) by simp
    have here: "- 32768 \<le> raw i \<and> raw i \<le> 32767 \<and> \<bar>raw i\<bar> * (samples div 10) < 2147483648"
      using "1.prems"(2) True by simp
    have e: "envelope samples i (raw i) = spec_fade samples i (raw i)"
      using here
      by (intro envelope_spec_fade [OF N0 "1.prems"(1) _ _ _ "1.prems"(3) True]) simp_all
    have later: "\<forall>k. i + 1 \<le> k \<and> k < samples \<longrightarrow>
           - 32768 \<le> raw k \<and> raw k \<le> 32767 \<and> \<bar>raw k\<bar> * (samples div 10) < 2147483648"
      using "1.prems"(2) by simp
    have ih: "tone_loop raw samples (i + 1) =
        concat (map (\<lambda>k. [spec_fade samples (int k) (raw (int k)),
                          spec_fade samples (int k) (raw (int k))])
                    [nat (i + 1)..<nat samples])"
      using "1.prems"(3) by (intro "1.IH" [OF True "1.prems"(1) later]) simp
    have idx: "[nat i..<nat samples] = nat i # [nat (i + 1)..<nat samples]"
      using True "1.prems"(3) by (simp add: upt_conv_Cons nat_add_distrib)
    show ?thesis
      using True "1.prems"(3) by (subst tone_loop.simps) (simp add: e ih idx)
  qed
qed

lemma sint16_range:
  fixes x :: u16
  shows "- 32768 \<le> sint x" and "sint x \<le> 32767" and "\<bar>sint x\<bar> \<le> 32768"
proof -
  have "- (2 ^ (LENGTH(16) - 1)) \<le> sint x" by (rule sint_ge)
  moreover have "sint x < 2 ^ (LENGTH(16) - 1)" by (rule sint_lt)
  ultimately show "- 32768 \<le> sint x" and "sint x \<le> 32767" and "\<bar>sint x\<bar> \<le> 32768"
    by simp_all
qed

text \<open>
  A request that gets through writes the specification's tone, when the tone is short enough
  for \<open>sample_rate * duration_ms\<close> and for the products of the fade to stay inside \<open>int\<close>.
\<close>

lemma generate_tone_spec:
  assumes d: "0 \<le> d" "d \<le> 48695"
    and hw: "tx_chan hw" "heap_fits hw (tone_alloc_size (tone_samples d))" "i2s_write hw k = ESP_OK"
    and ov: "\<forall>i. 0 \<le> i \<and> i < tone_samples d \<longrightarrow>
               \<bar>sint (osc hw f i)\<bar> * (tone_samples d div 10) < 2147483648"
  shows "embedded_audio_generate_tone hw k f d = (ESP_OK, spec_tone (\<lambda>f i. sint (osc hw f i)) f d)"
proof -
  have N: "tone_samples d = 44100 * d div 1000"
    using d by (rule tone_samples_exact)
  have N1: "tone_samples d < 2147483648" using d by (simp add: N)
  have raw: "\<forall>i. 0 \<le> i \<and> i < tone_samples d \<longrightarrow>
      - 32768 \<le> sint (osc hw f i) \<and> sint (osc hw f i) \<le> 32767 \<and>
      \<bar>sint (osc hw f i)\<bar> * (tone_samples d div 10) < 2147483648"
    using ov sint16_range(1,2) by blast
  have loop: "tone_loop (\<lambda>i. sint (osc hw f i)) (tone_samples d) 0 =
              spec_tone (\<lambda>f i. sint (osc hw f i)) f d"
    using tone_loop_spec [OF N1 raw] by (simp add: spec_tone_def N)
  show ?thesis
    using hw by (simp add: embedded_audio_generate_tone_def Let_def loop)
qed

lemma generate_tone_200:
  assumes hw: "tx_chan hw" "heap_fits hw 35280" "i2s_write hw k = ESP_OK"
  shows "embedded_audio_generate_tone hw k f 200 = (ESP_OK, spec_tone (\<lambda>f i. sint (osc hw f i)) f 200)"
proof -
  have alloc: "tone_alloc_size (tone_samples 200) = 35280"
    by (simp add: tone_samples_200 tone_alloc_size_exact)
  have "\<bar>sint (osc hw f i)\<bar> * (tone_samples 200 div 10) < 2147483648" for i
  proof -
    have "\<bar>sint (osc hw f i)\<bar> * 882 \<le> 32768 * 882"
      using sint16_range(3) [of "osc hw f i"] by simp
    then show ?thesis by (simp add: tone_samples_200)
  qed
  then show ?thesis
    using hw by (intro generate_tone_spec) (simp_all add: alloc)
qed

lemma concat_pairs_length: "length (concat (map (\<lambda>k. [g k, g k]) [0..<n])) = 2 * n"
  by (induction n) simp_all

lemma concat_pairs_nth:
  "i < n \<Longrightarrow> concat (map (\<lambda>k. [g k, g k]) [0..<n]) ! (2 * i) = g i"
proof (induction n)
  case 0
  then show ?case by simp
next
  case (Suc n)
  show ?case
  proof (cases "i < n")
    case True
    with Suc.IH show ?thesis by (simp add: nth_append concat_pairs_length)
  next
    case False
    with Suc.prems have "i = n" by simp
    then show ?thesis by (simp add: nth_append concat_pairs_length)
  qed
qed

lemma spec_tone_length:
  "length (spec_tone sine f d) = 2 * nat (44100 * d div 1000)"
  by (simp add: spec_tone_def concat_pairs_length)

lemma spec_tone_nth:
  "i < nat (44100 * d div 1000) \<Longrightarrow>
     spec_tone sine f d ! (2 * i) = spec_fade (44100 * d div 1000) (int i) (sine f (int i))"
  unfolding spec_tone_def by (rule concat_pairs_nth)

text \<open>
  Claim C9, as amended. For a tone request whose duration lies between 0 and 48695 ms, so
  that \<open>sample_rate * duration_ms\<close> fits a 32-bit \<open>int\<close>, on an initialised channel with the
  allocation and the write succeeding, the generator writes exactly
  \<open>N = 44100 * duration_ms div 1000\<close> stereo pairs (13230 for 300 ms), both channels of pair
  \<open>i\<close> holding the faded raw sample. For a raw 16-bit sample \<open>r\<close> whose product with \<open>N div 10\<close>
  fits an \<open>int\<close>, the fade is the linear ramp: \<open>r * i / (N div 10)\<close> below index \<open>N div 10\<close>,
  \<open>r * (N - i) / (N div 10)\<close> above index \<open>N - N div 10\<close>, both rounded towards zero, and \<open>r\<close>
  in between; so the magnitude is non-decreasing over the indices below \<open>N div 10\<close> and
  non-increasing over the indices from \<open>N - N div 10\<close> on. When every raw sample of the tone
  meets that bound, what is written is the specification's tone.
\<close>

theorem generate_tone_pairs_and_fade:
  assumes d: "0 \<le> d" "d \<le> 48695"
    and hw: "tx_chan hw" "heap_fits hw (tone_alloc_size (tone_samples d))" "i2s_write hw k = ESP_OK"
  shows "tone_samples d = 44100 * d div 1000 \<and> tone_samples 300 = 13230 \<and>
    fst (embedded_audio_generate_tone hw k f d) = ESP_OK \<and>
    length (snd (embedded_audio_generate_tone hw k f d)) = 2 * nat (tone_samples d) \<and>
    (\<forall>i < nat (tone_samples d).
        snd (embedded_audio_generate_tone hw k f d) ! (2 * i) =
          envelope (tone_samples d) (int i) (sint (osc hw f (int i))) \<and>
        snd (embedded_audio_generate_tone hw k f d) ! (2 * i + 1) =
          envelope (tone_samples d) (int i) (sint (osc hw f (int i)))) \<and>
    (\<forall>r i. - 32768 \<le> r \<and> r \<le> 32767 \<and> \<bar>r\<bar> * (tone_samples d div 10) < 2147483648 \<and>
        0 \<le> i \<and> i < tone_samples d
        \<longrightarrow> envelope (tone_samples d) i r =
              (if i < tone_samples d div 10
                 then sgn r * (\<bar>r\<bar> * i div (tone_samples d div 10))
               else if tone_samples d - tone_samples d div 10 < i
                 then sgn r * (\<bar>r\<bar> * (tone_samples d - i) div (tone_samples d div 10))
               else r)) \<and>
    (\<forall>r i j. - 32768 \<le> r \<and> r \<le> 32767 \<and> \<bar>r\<bar> * (tone_samples d div 10) < 2147483648 \<and>
        0 \<le> i \<and> i \<le> j \<and> j < tone_samples d div 10
        \<longrightarrow> \<bar>envelope (tone_samples d) i r\<bar> \<le> \<bar>envelope (tone_samples d) j r\<bar>) \<and>
    (\<forall>r i j. - 32768 \<le> r \<and> r \<le> 32767 \<and> \<bar>r\<bar> * (tone_samples d div 10) < 2147483648 \<and>
        tone_samples d - tone_samples d div 10 \<le> i \<and> i \<le> j \<and> j < tone_samples d
        \<longrightarrow> \<bar>envelope (tone_samples d) j r\<bar> \<le> \<bar>envelope (tone_samples d) i r\<bar>) \<and>
    ((\<forall>i. 0 \<le> i \<and> i < tone_samples d \<longrightarrow>
          \<bar>sint (osc hw f i)\<bar> * (tone_samples d div 10) < 2147483648)
        \<longrightarrow> snd (embedded_audio_generate_tone hw k f d) = spec_tone (\<lambda>f i. sint (osc hw f i)) f d)"
proof -
  have N: "tone_samples d = 44100 * d div 1000"
    using d by (rule tone_samples_exact)
  have N0: "0 \<le> tone_samples d" and N1: "tone_samples d < 2147483648"
    using d by (simp_all add: N)
  have gen: "embedded_audio_generate_tone hw k f d =
      (ESP_OK, tone_loop (\<lambda>i. sint (osc hw f i)) (tone_samples d) 0)"
    using hw by (simp add: embedded_audio_generate_tone_def Let_def)
  have nth: "\<forall>i < nat (tone_samples d).
        snd (embedded_audio_generate_tone hw k f d) ! (2 * i) =
          envelope (tone_samples d) (int i) (sint (osc hw f (int i))) \<and>
        snd (embedded_audio_generate_tone hw k f d) ! (2 * i + 1) =
          envelope (tone_samples d) (int i) (sint (osc hw f (int i)))"
    using tone_loop_nth [of _ "tone_samples d" 0 "\<lambda>i. sint (osc hw f i)"] by (simp add: gen)
  have n300: "tone_samples 300 = 13230"
    by (simp add: tone_samples_exact)
  have ok: "fst (embedded_audio_generate_tone hw k f d) = ESP_OK"
    by (simp add: gen)
  have len: "length (snd (embedded_audio_generate_tone hw k f d)) = 2 * nat (tone_samples d)"
    by (simp add: gen tone_loop_length)
  have lin: "\<forall>r i. - 32768 \<le> r \<and> r \<le> 32767 \<and> \<bar>r\<bar> * (tone_samples d div 10) < 2147483648 \<and>
        0 \<le> i \<and> i < tone_samples d
        \<longrightarrow> envelope (tone_samples d) i r =
              (if i < tone_samples d div 10
                 then sgn r * (\<bar>r\<bar> * i div (tone_samples d div 10))
               else if tone_samples d - tone_samples d div 10 < i
                 then sgn r * (\<bar>r\<bar> * (tone_samples d - i) div (tone_samples d div 10))
               else r)"
    unfolding spec_fade_def [symmetric]
    by (intro allI impI, elim conjE) (rule envelope_spec_fade [OF N0 N1])
  have up: "\<forall>r i j. - 32768 \<le> r \<and> r \<le> 32767 \<and> \<bar>r\<bar> * (tone_samples d div 10) < 2147483648 \<and>
        0 \<le> i \<and> i \<le> j \<and> j < tone_samples d div 10
        \<longrightarrow> \<bar>envelope (tone_samples d) i r\<bar> \<le> \<bar>envelope (tone_samples d) j r\<bar>"
    by (intro allI impI, elim conjE) (rule fade_in_mono [OF N0])
  have down: "\<forall>r i j. - 32768 \<le> r \<and> r \<le> 32767 \<and> \<bar>r\<bar> * (tone_samples d div 10) < 2147483648 \<and>
        tone_samples d - tone_samples d div 10 \<le> i \<and> i \<le> j \<and> j < tone_samples d
        \<longrightarrow> \<bar>envelope (tone_samples d) j r\<bar> \<le> \<bar>envelope (tone_samples d) i r\<bar>"
    by (intro allI impI, elim conjE) (rule fade_out_mono [OF N0 N1])
  have whole: "(\<forall>i. 0 \<le> i \<and> i < tone_samples d \<longrightarrow>
          \<bar>sint (osc hw f i)\<bar> * (tone_samples d div 10) < 2147483648)
        \<longrightarrow> snd (embedded_audio_generate_tone hw k f d) = spec_tone (\<lambda>f i. sint (osc hw f i)) f d"
    using generate_tone_spec [OF d hw] by simp
  from N n300 ok len nth lin up down whole show ?thesis
    by (intro conjI)
qed

theorem generate_tone_pairs_and_fade_witness:
  "tone_samples 300 = 13230 \<and>
   fst (embedded_audio_generate_tone hw0 0 800 300) = ESP_OK \<and>
   length (snd (embedded_audio_generate_tone hw0 0 800 300)) = 26460 \<and>
   snd (embedded_audio_generate_tone hw0 0 800 300) ! 200 = 1209 \<and>
   snd (embedded_audio_generate_tone hw0 0 800 300) ! 201 = 1209 \<and>
   snd (embedded_audio_generate_tone hw0 0 800 300) = spec_tone (\<lambda>f i. 16000) 800 300 \<and>
   envelope 13230 100 16000 = 1209 \<and> envelope 13230 100 (- 16000) = - 1209 \<and>
   envelope 13230 6000 16000 = 16000 \<and> envelope 13230 13000 16000 = 2781 \<and>
   \<bar>envelope 13230 100 16000\<bar> \<le> \<bar>envelope 13230 200 16000\<bar> \<and>
   \<bar>envelope 13230 13000 16000\<bar> \<le> \<bar>envelope 13230 12000 16000\<bar>"
proof -
  have n: "tone_samples 300 = 13230" by (simp add: tone_samples_exact)
  have h: "(0::int) \<le> 300" "(300::int) \<le> 48695" "tx_chan hw0"
    "heap_fits hw0 (tone_alloc_size (tone_samples 300))" "i2s_write hw0 0 = ESP_OK"
    by (simp_all add: hw0_def n tone_alloc_size_exact)
  have o: "sint (osc hw0 f i) = 16000" for f i
    by (simp add: hw0_def)
  note t = generate_tone_pairs_and_fade [OF h, of 800, unfolded n o]
  from t have ok: "fst (embedded_audio_generate_tone hw0 0 800 300) = ESP_OK"
    by (elim conjE)
  from t have len: "length (snd (embedded_audio_generate_tone hw0 0 800 300)) = 2 * nat 13230"
    by (elim conjE)
  from t have nth: "\<And>i. i < nat 13230 \<Longrightarrow>
      snd (embedded_audio_generate_tone hw0 0 800 300) ! (2 * i) = envelope 13230 (int i) 16000 \<and>
      snd (embedded_audio_generate_tone hw0 0 800 300) ! (2 * i + 1) = envelope 13230 (int i) 16000"
    by blast
  from t have lin: "\<And>r i. - 32768 \<le> r \<and> r \<le> 32767 \<and> \<bar>r\<bar> * (13230 div 10) < 2147483648 \<and>
        0 \<le> i \<and> i < 13230 \<Longrightarrow>
        envelope 13230 i r =
              (if i < 13230 div 10 then sgn r * (\<bar>r\<bar> * i div (13230 div 10))
               else if 13230 - 13230 div 10 < i then sgn r * (\<bar>r\<bar> * (13230 - i) div (13230 div 10))
               else r)"
    by blast
  from t have up: "\<And>r i j. - 32768 \<le> r \<and> r \<le> 32767 \<and> \<bar>r\<bar> * (13230 div 10) < 2147483648 \<and>
        0 \<le> i \<and> i \<le> j \<and> j < 13230 div 10 \<Longrightarrow> \<bar>envelope 13230 i r\<bar> \<le> \<bar>envelope 13230 j r\<bar>"
    by blast
  from t have down: "\<And>r i j. - 32768 \<le> r \<and> r \<le> 32767 \<and> \<bar>r\<bar> * (13230 div 10) < 2147483648 \<and>
        13230 - 13230 div 10 \<le> i \<and> i \<le> j \<and> j < 13230
        \<Longrightarrow> \<bar>envelope 13230 j r\<bar> \<le> \<bar>envelope 13230 i r\<bar>"
    by blast
  from t have whole: "(\<forall>i::int. 0 \<le> i \<and> i < 13230 \<longrightarrow> \<bar>16000::int\<bar> * (13230 div 10) < 2147483648)
        \<longrightarrow> snd (embedded_audio_generate_tone hw0 0 800 300) = spec_tone (\<lambda>f i. 16000) 800 300"
    by (elim conjE)
  have e1: "envelope 13230 100 16000 = 1209"
    by (subst lin) simp_all
  have e2: "envelope 13230 100 (- 16000) = - 1209"
    by (subst lin) simp_all
  have e3: "envelope 13230 6000 16000 = 16000"
    by (subst lin) simp_all
  have e4: "envelope 13230 13000 16000 = 2781"
    by (subst lin) simp_all
  have s1: "snd (embedded_audio_generate_tone hw0 0 800 300) ! 200 = 1209"
    using nth [of 100] by (simp add: e1)
  have s2: "snd (embedded_audio_generate_tone hw0 0 800 300) ! 201 = 1209"
    using nth [of 100] by (simp add: e1)
  have w: "snd (embedded_audio_generate_tone hw0 0 800 300) = spec_tone (\<lambda>f i. 16000) 800 300"
    using whole by simp
  have m1: "\<bar>envelope 13230 100 16000\<bar> \<le> \<bar>envelope 13230 200 16000\<bar>"
    by (rule up) simp
  have m2: "\<bar>envelope 13230 13000 16000\<bar> \<le> \<bar>envelope 13230 12000 16000\<bar>"
    by (rule down) simp
  have l: "length (snd (embedded_audio_generate_tone hw0 0 800 300)) = 26460"
    using len by simp
  from n ok l s1 s2 w e1 e2 e3 e4 m1 m2 show ?thesis
    by (intro conjI)
qed

text \<open>
  Claim C9 as stated fails for long tones, in two ways. For a request of 97392 ms the product
  \<open>44100 * 97392\<close> wraps around and the generator computes 19 pairs instead of 4294987. For
  a request of 40000 ms the count, 1764000 pairs, is right, but inside the fade-in the product
  \<open>sample * i\<close> wraps around: a raw sample of 15999 at index 134629 is written as -12137,
  where the linear ramp gives 12210, and its magnitude is below the 12153 that the same raw
  sample gets at the earlier index 134000.
\<close>

theorem generate_tone_overflow_counterexample:
  "tone_samples 97392 = 19 \<and> 44100 * 97392 div 1000 = (4294987::int) \<and>
   fst (embedded_audio_generate_tone hw0 0 800 97392) = ESP_OK \<and>
   length (snd (embedded_audio_generate_tone hw0 0 800 97392)) = 2 * 19 \<and>
   tone_samples 40000 = 1764000 \<and>
   fst (embedded_audio_generate_tone hw_crest 0 800 40000) = ESP_OK \<and>
   snd (embedded_audio_generate_tone hw_crest 0 800 40000) ! (2 * 134629) = - 12137 \<and>
   spec_tone (\<lambda>f i. 15999) 800 40000 ! (2 * 134629) = 12210 \<and>
   envelope 1764000 134000 15999 = 12153 \<and> envelope 1764000 134629 15999 = - 12137"
proof -
  have n: "tone_samples 97392 = 19"
    by (simp add: tone_samples_def gen_sample_rate_def wrap32_def c_div_def)
  have gen: "embedded_audio_generate_tone hw0 0 800 97392 =
      (ESP_OK, tone_loop (\<lambda>i. sint (osc hw0 800 i)) 19 0)"
    by (simp add: embedded_audio_generate_tone_def Let_def n tone_alloc_size_exact) (simp add: hw0_def)
  have m: "tone_samples 40000 = 1764000"
    by (simp add: tone_samples_exact)
  have o: "sint (osc hw_crest f i) = 15999" for f i
    by (simp add: hw_crest_def)
  have gen2: "embedded_audio_generate_tone hw_crest 0 800 40000 =
      (ESP_OK, tone_loop (\<lambda>i. 15999) 1764000 0)"
    by (simp add: embedded_audio_generate_tone_def Let_def m o) (simp add: hw_crest_def)
  have e1: "envelope 1764000 134000 15999 = 12153"
    by (simp add: envelope_def c_div_def wrap32_def wrap16_def)
  have e2: "envelope 1764000 134629 15999 = - 12137"
    by (simp add: envelope_def c_div_def wrap32_def wrap16_def)
  have s: "snd (embedded_audio_generate_tone hw_crest 0 800 40000) ! (2 * 134629) = - 12137"
    using tone_loop_nth [of 134629 1764000 0 "\<lambda>i. 15999"] by (simp add: gen2 e2)
  have sp: "spec_tone (\<lambda>f i. 15999) 800 40000 ! (2 * 134629) = 12210"
    by (subst spec_tone_nth) (simp_all add: spec_fade_def)
  from n gen m gen2 e1 e2 s sp show ?thesis
    by (simp add: tone_loop_length)
qed

section \<open>Tone patterns\<close>

lemma intersperse_Cons:
  "intersperse a (x # xs) = x # (if xs = [] then [] else a # intersperse a xs)"
  by (cases xs) simp_all

lemma play_tone_calls: "calls (snd (play_tone hw f d s)) = Suc (calls s)"
  by (simp add: play_tone_def split: prod.split)

lemma play_tone_trace:
  "trace (snd (play_tone hw f d s)) =
     trace s @ [Tone f d (fst (embedded_audio_generate_tone hw (calls s) f d))]"
  by (simp add: play_tone_def split: prod.split)

text \<open>The pattern loop from index \<open>i\<close> on: the remaining beeps, separated by delays.\<close>

lemma pattern_loop_trace:
  "trace (pattern_loop hw f (int n) (int i) s) =
     trace s @ intersperse (Delay 100)
       (map (\<lambda>j. Tone (f + int j * 100) 200
                   (fst (embedded_audio_generate_tone hw (calls s + (j - i)) (f + int j * 100) 200)))
            [i..<n])"
proof (induction "n - i" arbitrary: i s)
  case 0
  then show ?case by (subst pattern_loop.simps) simp
next
  case (Suc m)
  then have lt: "i < n" and m: "m = n - Suc i" by simp_all
  define s1 where "s1 = snd (play_tone hw (f + int i * 100) 200 s)"
  define s2 where "s2 = (if int i < int n - 1 then s1\<lparr>trace := trace s1 @ [Delay 100]\<rparr> else s1)"
  have calls2: "calls s2 = Suc (calls s)"
    by (simp add: s2_def s1_def play_tone_calls)
  have unfold: "pattern_loop hw f (int n) (int i) s = pattern_loop hw f (int n) (int (Suc i)) s2"
    using lt by (subst pattern_loop.simps) (simp add: s1_def s2_def Let_def add.commute)
  have ih: "trace (pattern_loop hw f (int n) (int (Suc i)) s2) =
     trace s2 @ intersperse (Delay 100)
       (map (\<lambda>j. Tone (f + int j * 100) 200
                   (fst (embedded_audio_generate_tone hw (calls s2 + (j - Suc i)) (f + int j * 100) 200)))
            [Suc i..<n])"
    using Suc.hyps(1) [OF m] .
  have idx: "map (\<lambda>j. Tone (f + int j * 100) 200
                   (fst (embedded_audio_generate_tone hw (calls s2 + (j - Suc i)) (f + int j * 100) 200)))
            [Suc i..<n] =
        map (\<lambda>j. Tone (f + int j * 100) 200
                   (fst (embedded_audio_generate_tone hw (calls s + (j - i)) (f + int j * 100) 200)))
            [Suc i..<n]"
  proof (rule map_cong [OF refl])
    fix j assume "j \<in> set [Suc i..<n]"
    then have "Suc i \<le> j" by simp
    then have "calls s2 + (j - Suc i) = calls s + (j - i)"
      unfolding calls2 by arith
    then show "Tone (f + int j * 100) 200
                 (fst (embedded_audio_generate_tone hw (calls s2 + (j - Suc i)) (f + int j * 100) 200)) =
               Tone (f + int j * 100) 200
                 (fst (embedded_audio_generate_tone hw (calls s + (j - i)) (f + int j * 100) 200))"
      by simp
  qed
  have gap: "(int i < int n - 1) = ([Suc i..<n] \<noteq> [])"
    using lt by auto
  show ?case
    unfolding unfold ih idx
    using lt
    by (simp add: upt_conv_Cons [of i n] intersperse_Cons s2_def s1_def play_tone_trace gap
             del: upt_Suc)
qed

lemma play_tone_blocks:
  "i2s_blocks (snd (play_tone hw f d s)) =
     i2s_blocks s @ (if fst (embedded_audio_generate_tone hw (calls s) f d) = ESP_OK
                     then [snd (embedded_audio_generate_tone hw (calls s) f d)] else [])"
  by (simp add: play_tone_def split: prod.split)

text \<open>What the pattern loop from index \<open>i\<close> on hands to the I2S channel: the samples of every
  request that succeeds.\<close>

lemma pattern_loop_blocks:
  "i2s_blocks (pattern_loop hw f (int n) (int i) s) =
     i2s_blocks s @ concat
       (map (\<lambda>j. if fst (embedded_audio_generate_tone hw (calls s + (j - i)) (f + int j * 100) 200) = ESP_OK
                 then [snd (embedded_audio_generate_tone hw (calls s + (j - i)) (f + int j * 100) 200)]
                 else [])
            [i..<n])"
proof (induction "n - i" arbitrary: i s)
  case 0
  then show ?case by (subst pattern_loop.simps) simp
next
  case (Suc m)
  then have lt: "i < n" and m: "m = n - Suc i" by simp_all
  define s1 where "s1 = snd (play_tone hw (f + int i * 100) 200 s)"
  define s2 where "s2 = (if int i < int n - 1 then s1\<lparr>trace := trace s1 @ [Delay 100]\<rparr> else s1)"
  have calls2: "calls s2 = Suc (calls s)"
    by (simp add: s2_def s1_def play_tone_calls)
  have blocks2: "i2s_blocks s2 =
      i2s_blocks s @ (if fst (embedded_audio_generate_tone hw (calls s) (f + int i * 100) 200) = ESP_OK
                      then [snd (embedded_audio_generate_tone hw (calls s) (f + int i * 100) 200)] else [])"
    by (simp add: s2_def s1_def play_tone_blocks)
  have unfold: "pattern_loop hw f (int n) (int i) s = pattern_loop hw f (int n) (int (Suc i)) s2"
    using lt by (subst pattern_loop.simps) (simp add: s1_def s2_def Let_def add.commute)
  have ih: "i2s_blocks (pattern_loop hw f (int n) (int (Suc i)) s2) =
     i2s_blocks s2 @ concat
       (map (\<lambda>j. if fst (embedded_audio_generate_tone hw (calls s2 + (j - Suc i)) (f + int j * 100) 200) = ESP_OK
                 then [snd (embedded_audio_generate_tone hw (calls s2 + (j - Suc i)) (f + int j * 100) 200)]
                 else [])
            [Suc i..<n])"
    using Suc.hyps(1) [OF m] .
  have idx: "map (\<lambda>j. if fst (embedded_audio_generate_tone hw (calls s2 + (j - Suc i)) (f + int j * 100) 200) = ESP_OK
                 then [snd (embedded_audio_generate_tone hw (calls s2 + (j - Suc i)) (f + int j * 100) 200)]
                 else [])
            [Suc i..<n] =
        map (\<lambda>j. if fst (embedded_audio_generate_tone hw (calls s + (j - i)) (f + int j * 100) 200) = ESP_OK
                 then [snd (embedded_audio_generate_tone hw (calls s + (j - i)) (f + int j * 100) 200)]
                 else [])
            [Suc i..<n]"
  proof (rule map_cong [OF refl])
    fix j assume "j \<in> set [Suc i..<n]"
    then have "Suc i \<le> j" by simp
    then have "calls s2 + (j - Suc i) = calls s + (j - i)"
      unfolding calls2 by arith
    then show "(if fst (embedded_audio_generate_tone hw (calls s2 + (j - Suc i)) (f + int j * 100) 200) = ESP_OK
                 then [snd (embedded_audio_generate_tone hw (calls s2 + (j - Suc i)) (f + int j * 100) 200)]
                 else []) =
               (if fst (embedded_audio_generate_tone hw (calls s + (j - i)) (f + int j * 100) 200) = ESP_OK
                 then [snd (embedded_audio_generate_tone hw (calls s + (j - i)) (f + int j * 100) 200)]
                 else [])"
      by simp
  qed
  show ?case
    unfolding unfold ih idx blocks2
    using lt by (simp add: upt_conv_Cons [of i n] del: upt_Suc)
qed

lemma select_pattern_spec:
  "select_pattern language = (fst (spec_tone_table language), int (snd (spec_tone_table language)))"
  by (simp add: select_pattern_def spec_tone_table_def)

text \<open>
  Claim C7. For every detection result the dispatch succeeds and adds to the trace exactly the
  specification's pattern for the result's language: 600 Hz and 3 beeps for \<open>hindi\<close>,
  1000 Hz and 2 beeps for \<open>gujarati\<close>, 800 Hz and 1 beep for anything else; beep \<open>i\<close> is a
  tone request of \<open>base + i * 100\<close> Hz for 200 ms, a 100 ms delay stands between consecutive
  beeps and none follows the last. This holds whatever the hardware does with the requests.
  When the channel is initialised, the 35280 bytes of a 200 ms tone can be allocated and the
  writes of these requests succeed, every request ends with \<open>ESP_OK\<close> and the sample blocks
  that reach the I2S channel are exactly the specification's tones, one per beep, in order.
\<close>

theorem embedded_audio_play_pattern:
  "fst (embedded_audio_play hw txt language s) = ESP_OK \<and>
   (\<exists>rets. length rets = snd (spec_tone_table language) \<and>
      trace (snd (embedded_audio_play hw txt language s)) =
        trace s @ spec_beeps (fst (spec_tone_table language)) (snd (spec_tone_table language)) rets) \<and>
   (tx_chan hw \<and> heap_fits hw 35280 \<and>
    (\<forall>k. calls s \<le> k \<and> k < calls s + snd (spec_tone_table language) \<longrightarrow> i2s_write hw k = ESP_OK)
    \<longrightarrow>
      trace (snd (embedded_audio_play hw txt language s)) =
        trace s @ spec_beeps (fst (spec_tone_table language)) (snd (spec_tone_table language))
                    (replicate (snd (spec_tone_table language)) ESP_OK) \<and>
      i2s_blocks (snd (embedded_audio_play hw txt language s)) =
        i2s_blocks s @ spec_tones (\<lambda>f i. sint (osc hw f i))
                         (fst (spec_tone_table language)) (snd (spec_tone_table language)))"
proof -
  define base where "base = fst (spec_tone_table language)"
  define n where "n = snd (spec_tone_table language)"
  define s' where "s' = snd (embedded_audio_play hw txt language s)"
  define rets where
    "rets = map (\<lambda>j. fst (embedded_audio_generate_tone hw (calls s + j) (base + int j * 100) 200)) [0..<n]"
  have play: "s' = pattern_loop hw base (int n) 0 s"
    by (simp add: s'_def embedded_audio_play_def select_pattern_spec base_def n_def)
  have ok: "fst (embedded_audio_play hw txt language s) = ESP_OK"
    by (simp add: embedded_audio_play_def split: prod.split)
  have tr: "trace s' = trace s @ intersperse (Delay 100)
       (map (\<lambda>j. Tone (base + int j * 100) 200
                   (fst (embedded_audio_generate_tone hw (calls s + j) (base + int j * 100) 200)))
            [0..<n])"
    using pattern_loop_trace [of hw base n 0 s] by (simp add: play)
  have bl: "i2s_blocks s' = i2s_blocks s @ concat
       (map (\<lambda>j. if fst (embedded_audio_generate_tone hw (calls s + j) (base + int j * 100) 200) = ESP_OK
                 then [snd (embedded_audio_generate_tone hw (calls s + j) (base + int j * 100) 200)]
                 else [])
            [0..<n])"
    using pattern_loop_blocks [of hw base n 0 s] by (simp add: play cong del: if_weak_cong)
  have len: "length rets = n" by (simp add: rets_def)
  have r: "map (\<lambda>j. Tone (base + int j * 100) 200
                   (fst (embedded_audio_generate_tone hw (calls s + j) (base + int j * 100) 200)))
            [0..<n] =
        map (\<lambda>i. Tone (base + int i * 100) 200 (rets ! i)) [0..<n]"
    by (rule map_cong [OF refl]) (simp add: rets_def)
  have any: "trace s' = trace s @ spec_beeps base n rets"
    by (simp only: tr spec_beeps_def r)
  have good: "trace s' = trace s @ spec_beeps base n (replicate n ESP_OK) \<and>
      i2s_blocks s' = i2s_blocks s @ spec_tones (\<lambda>f i. sint (osc hw f i)) base n"
    if hw: "tx_chan hw" "heap_fits hw 35280"
      and wr: "\<forall>k. calls s \<le> k \<and> k < calls s + n \<longrightarrow> i2s_write hw k = ESP_OK"
  proof -
    have gen: "embedded_audio_generate_tone hw (calls s + j) (base + int j * 100) 200 =
        (ESP_OK, spec_tone (\<lambda>f i. sint (osc hw f i)) (base + int j * 100) 200)" if "j < n" for j
      using that wr by (intro generate_tone_200 hw) simp
    have t: "map (\<lambda>j. Tone (base + int j * 100) 200
                   (fst (embedded_audio_generate_tone hw (calls s + j) (base + int j * 100) 200)))
            [0..<n] =
        map (\<lambda>i. Tone (base + int i * 100) 200 (replicate n ESP_OK ! i)) [0..<n]"
      by (rule map_cong [OF refl]) (simp add: gen)
    have b: "map (\<lambda>j. if fst (embedded_audio_generate_tone hw (calls s + j) (base + int j * 100) 200) = ESP_OK
                 then [snd (embedded_audio_generate_tone hw (calls s + j) (base + int j * 100) 200)]
                 else [])
            [0..<n] =
        map (\<lambda>j. [spec_tone (\<lambda>f i. sint (osc hw f i)) (base + int j * 100) 200]) [0..<n]"
      by (rule map_cong [OF refl]) (simp add: gen)
    have c: "concat (map (\<lambda>j. [g j]) xs) = map g xs" for g :: "nat \<Rightarrow> int list" and xs
      by (induction xs) simp_all
    show ?thesis
      by (simp only: tr bl t b c spec_beeps_def spec_tones_def)
  qed
  from len any have ex: "\<exists>rets. length rets = n \<and> trace s' = trace s @ spec_beeps base n rets"
    by blast
  from good have imp: "tx_chan hw \<and> heap_fits hw 35280 \<and>
      (\<forall>k. calls s \<le> k \<and> k < calls s + n \<longrightarrow> i2s_write hw k = ESP_OK) \<longrightarrow>
      trace s' = trace s @ spec_beeps base n (replicate n ESP_OK) \<and>
      i2s_blocks s' = i2s_blocks s @ spec_tones (\<lambda>f i. sint (osc hw f i)) base n"
    by blast
  from ok ex imp show ?thesis
    unfolding base_def n_def s'_def by (intro conjI)
qed

theorem embedded_audio_play_pattern_witness:
  "trace (snd (embedded_audio_play hw0 ''BPM'' ''hindi'' audio_idle)) =
     [Tone 600 200 ESP_OK, Delay 100, Tone 700 200 ESP_OK, Delay 100, Tone 800 200 ESP_OK] \<and>
   i2s_blocks (snd (embedded_audio_play hw0 ''BPM'' ''hindi'' audio_idle)) =
     [spec_tone (\<lambda>f i. 16000) 600 200, spec_tone (\<lambda>f i. 16000) 700 200,
      spec_tone (\<lambda>f i. 16000) 800 200] \<and>
   trace (snd (embedded_audio_play hw0 ''BPM'' ''gujarati'' audio_idle)) =
     [Tone 1000 200 ESP_OK, Delay 100, Tone 1100 200 ESP_OK] \<and>
   i2s_blocks (snd (embedded_audio_play hw0 ''BPM'' ''gujarati'' audio_idle)) =
     [spec_tone (\<lambda>f i. 16000) 1000 200, spec_tone (\<lambda>f i. 16000) 1100 200] \<and>
   trace (snd (embedded_audio_play hw0 ''BPM'' ''english'' audio_idle)) = [Tone 800 200 ESP_OK] \<and>
   i2s_blocks (snd (embedded_audio_play hw0 ''BPM'' ''english'' audio_idle)) =
     [spec_tone (\<lambda>f i. 16000) 800 200] \<and>
   length (spec_tone (\<lambda>f i. 16000) 800 200) = 17640 \<and>
   spec_tone (\<lambda>f i. 16000) 800 200 ! 200 = 1814 \<and>
   spec_tone (\<lambda>f i. 16000) 800 200 ! 8000 = 16000"
proof -
  have hw: "tx_chan hw0 \<and> heap_fits hw0 35280 \<and>
      (\<forall>k. calls audio_idle \<le> k \<and> k < calls audio_idle + snd (spec_tone_table language)
         \<longrightarrow> i2s_write hw0 k = ESP_OK)" for language
    by (simp add: hw0_def)
  have o: "(\<lambda>f i. sint (osc hw0 f i)) = (\<lambda>f i. 16000)"
    by (simp add: hw0_def)
  have p: "trace (snd (embedded_audio_play hw0 ''BPM'' language audio_idle)) =
        spec_beeps (fst (spec_tone_table language)) (snd (spec_tone_table language))
                    (replicate (snd (spec_tone_table language)) ESP_OK) \<and>
      i2s_blocks (snd (embedded_audio_play hw0 ''BPM'' language audio_idle)) =
        spec_tones (\<lambda>f i. 16000) (fst (spec_tone_table language)) (snd (spec_tone_table language))"
    for language
    using embedded_audio_play_pattern [of hw0 "''BPM''" language audio_idle] hw [of language]
    by (simp add: o) (simp add: audio_idle_def)
  have l: "length (spec_tone (\<lambda>f i. 16000) 800 200) = 17640"
    by (simp add: spec_tone_length)
  have a: "spec_tone (\<lambda>f i. 16000) 800 200 ! 200 = 1814"
    using spec_tone_nth [of 100 200 "\<lambda>f i. 16000" 800] by (simp add: spec_fade_def)
  have b: "spec_tone (\<lambda>f i. 16000) 800 200 ! 8000 = 16000"
    using spec_tone_nth [of 4000 200 "\<lambda>f i. 16000" 800] by (simp add: spec_fade_def)
  show ?thesis
    using p [of "''hindi''"] p [of "''gujarati''"] p [of "''english''"] l a b
    by (simp add: spec_tone_table_def spec_beeps_def spec_tones_def eval_nat_numeral)
qed

section \<open>Fallback beep\<close>

lemma audio_task_handle_no_fallback:
  "audio_task_handle hw result s = snd (embedded_audio_play hw (ocr_text result) (ocr_language result) s)"
  by (simp add: audio_task_handle_def embedded_audio_play_def split: prod.splits)

text \<open>
  Claim C5 (the code departs from it). \<open>embedded_audio_play\<close> drops the result of every tone
  request and returns \<open>ESP_OK\<close>, so the fallback branch of \<open>audio_task\<close> is never taken. With
  a write that times out on the first tone and works afterwards, the tone for an English
  detection fails, the dispatch ends with that one failed request in its trace, and no
  800 Hz, 300 ms beep is requested, although a beep requested at that point would succeed.
\<close>

theorem fallback_beep_unreachable:
  "fst (embedded_audio_generate_tone hw_write_fails 0 800 200) = ESP_ERR_TIMEOUT \<and>
   fst (embedded_audio_beep hw_write_fails (audio_task_handle hw_write_fails bpm_english audio_idle)) = ESP_OK \<and>
   trace (audio_task_handle hw_write_fails bpm_english audio_idle) = [Tone 800 200 ESP_ERR_TIMEOUT]"
proof -
  have gen: "fst (embedded_audio_generate_tone hw_write_fails 0 800 200) = ESP_ERR_TIMEOUT"
    by (simp add: embedded_audio_generate_tone_def hw_write_fails_def Let_def
          tone_samples_200 tone_alloc_size_exact)
  have tr: "trace (audio_task_handle hw_write_fails bpm_english audio_idle) =
              [Tone 800 200 ESP_ERR_TIMEOUT]"
    using pattern_loop_trace [of hw_write_fails 800 1 0 audio_idle] gen
    by (simp add: audio_task_handle_no_fallback embedded_audio_play_def select_pattern_def
          bpm_english_def audio_idle_def)
  have c: "calls (audio_task_handle hw_write_fails bpm_english audio_idle) = 1"
    by (simp add: audio_task_handle_no_fallback embedded_audio_play_def select_pattern_def
          bpm_english_def audio_idle_def pattern_loop.simps [of _ _ 1 0] pattern_loop.simps [of _ _ 1 1]
          Let_def play_tone_calls)
  have n300: "tone_samples 300 = 13230" by (simp add: tone_samples_exact)
  have beep: "fst (embedded_audio_beep hw_write_fails
                 (audio_task_handle hw_write_fails bpm_english audio_idle)) = ESP_OK"
  proof -
    have hw: "tx_chan hw_write_fails" "heap_fits hw_write_fails (tone_alloc_size 13230)"
        "i2s_write hw_write_fails (Suc 0) = ESP_OK"
      by (simp_all add: hw_write_fails_def tone_alloc_size_exact)
    show ?thesis
      by (simp add: embedded_audio_beep_def play_tone_def Let_def c
            embedded_audio_generate_tone_def n300 hw)
  qed
  from gen tr beep show ?thesis by simp
qed

section \<open>Detection queue\<close>

lemma camera_task_push_full:
  assumes "length q = ocr_queue_length" "ocr_text r \<noteq> []"
  shows "camera_task_push q ESP_OK r = Some (q, [''OCR result queue full, dropping result''])"
  using assms by (simp add: camera_task_push_def xQueueSend_def)

lemma camera_task_push_room:
  assumes "length q < ocr_queue_length" "ocr_text r \<noteq> []"
  shows "camera_task_push q ESP_OK r = Some (q @ [r], [])"
  using assms by (simp add: camera_task_push_def xQueueSend_def)

lemma camera_task_pushes_room:
  assumes "length q + length rs \<le> ocr_queue_length" "\<forall>r \<in> set rs. ocr_text r \<noteq> []"
  shows "camera_task_pushes q rs = Some (q @ rs, [])"
  using assms
  by (induction rs arbitrary: q) (simp_all add: camera_task_push_room)

text \<open>
  Claim C6. On a queue that holds its 5 items, every further push of a detection returns at
  once (it is never left waiting), logs the queue-full warning and leaves the queue, contents
  and order, as it was.
\<close>

theorem queue_full_drops_newest:
  assumes "length q = ocr_queue_length" "\<forall>r \<in> set rs. ocr_text r \<noteq> []"
  shows "camera_task_pushes q rs =
           Some (q, replicate (length rs) ''OCR result queue full, dropping result'')"
  using assms
proof (induction rs)
  case Nil
  show ?case by simp
next
  case (Cons r rs)
  then show ?case by (simp add: camera_task_push_full)
qed

theorem queue_full_drops_newest_witness:
  "camera_task_pushes [sign ''A'', sign ''B'', sign ''C'', sign ''D'', sign ''E''] [sign ''F'', sign ''G''] =
     Some ([sign ''A'', sign ''B'', sign ''C'', sign ''D'', sign ''E''],
           [''OCR result queue full, dropping result'', ''OCR result queue full, dropping result''])"
  using queue_full_drops_newest
    [of "[sign ''A'', sign ''B'', sign ''C'', sign ''D'', sign ''E'']" "[sign ''F'', sign ''G'']"]
  by (simp add: ocr_queue_length_def sign_def)

section \<open>Header validation and stereo streaming\<close>

lemma strncmp_tag:
  assumes "length xs = 4" "length tag = 4" "0 \<notin> set tag"
  shows "(strncmp xs (tag @ [0]) 4 = 0) = (xs = tag)"
proof -
  obtain a b c d where xs: "xs = [a, b, c, d]"
    using assms(1) by (auto simp: length_Suc_conv eval_nat_numeral)
  obtain a' b' c' d' where tag: "tag = [a', b', c', d']"
    using assms(2) by (auto simp: length_Suc_conv eval_nat_numeral)
  show ?thesis
    using assms(3) by (auto simp: xs tag eval_nat_numeral dest: word_uint_eqI)
qed

lemma tag_check:
  assumes "length xs = 4"
  shows "(strncmp xs (c_str ''RIFF'') 4 = 0) = (xs = map of_char ''RIFF'')"
    and "(strncmp xs (c_str ''WAVE'') 4 = 0) = (xs = map of_char ''WAVE'')"
    and "(strncmp xs (c_str ''data'') 4 = 0) = (xs = map of_char ''data'')"
  unfolding c_str_def
  by (rule strncmp_tag [OF assms]; simp)+

lemma header_tag_lengths:
  assumes "wav_header_size \<le> length fl"
  shows "length (riff (parse_header (take wav_header_size fl))) = 4"
    and "length (wave (parse_header (take wav_header_size fl))) = 4"
    and "length (data (parse_header (take wav_header_size fl))) = 4"
  using assms by (simp_all add: parse_header_def wav_header_size_def)

lemma stereo_header:
  "parse_header (take wav_header_size stereo_file) =
     \<lparr> riff = map of_char ''RIFF'', file_size = 0, wave = map of_char ''WAVE'',
       fmt = map of_char ''fmt '', fmt_size = 16, audio_format = 1, num_channels = 2,
       sample_rate = 44100, byte_rate = 176400, block_align = 4, bits_per_sample = 16,
       data = map of_char ''data'', data_size = 8 \<rparr>"
  by (simp add: stereo_file_def wav_bytes_def parse_header_def wav_header_size_def le16_def le32_def)

lemma bad_header:
  "parse_header (take wav_header_size bad_file) =
     \<lparr> riff = map of_char ''RIFX'', file_size = 0, wave = map of_char ''WAVE'',
       fmt = map of_char ''fmt '', fmt_size = 16, audio_format = 1, num_channels = 2,
       sample_rate = 44100, byte_rate = 176400, block_align = 4, bits_per_sample = 16,
       data = map of_char ''data'', data_size = 8 \<rparr>"
  by (simp add: bad_file_def wav_bytes_def parse_header_def wav_header_size_def le16_def le32_def)

lemma mono_header:
  "parse_header (take wav_header_size mono_file) =
     \<lparr> riff = map of_char ''RIFF'', file_size = 0, wave = map of_char ''WAVE'',
       fmt = map of_char ''fmt '', fmt_size = 16, audio_format = 1, num_channels = 1,
       sample_rate = 44100, byte_rate = 176400, block_align = 4, bits_per_sample = 16,
       data = map of_char ''data'', data_size = 4096 \<rparr>"
  by (simp add: mono_file_def wav_bytes_def parse_header_def wav_header_size_def le16_def le32_def)

lemma rb_drain_empty: "rb_drain rb = []"
proof (cases "rb = []")
  case True
  then show ?thesis by (subst rb_drain.simps) (simp add: xRingbufferReceive_def)
next
  case False
  then have "rb_drain rb = rb_drain []"
    by (subst rb_drain.simps) (simp add: xRingbufferReceive_def vRingbufferReturnItem_def)
  also have "\<dots> = []" by (subst rb_drain.simps) (simp add: xRingbufferReceive_def)
  finally show ?thesis .
qed

lemma stop_if_playing:
  "is_playing (if is_playing s then snd (wav_player_stop s) else s) = False"
  "ring_buffer (if is_playing s then snd (wav_player_stop s) else s) =
     (if is_playing s then [] else ring_buffer s)"
  "i2s_out (if is_playing s then snd (wav_player_stop s) else s) = i2s_out s"
  by (simp_all add: wav_player_stop_def rb_drain_empty)

lemma stream_block_stereo:
  assumes ch: "num_channels header \<noteq> 1"
    and lt: "total_read < unat (data_size header)"
    and enough: "unat (data_size header) - total_read \<le> length file"
  shows "stream_block header True file buf total_read rb =
     Inr (Some (drop (min WAV_BUFFER_SIZE (unat (data_size header) - total_read)) file,
                take (min WAV_BUFFER_SIZE (unat (data_size header) - total_read)) file @
                  drop (min WAV_BUFFER_SIZE (unat (data_size header) - total_read)) buf,
                total_read + min WAV_BUFFER_SIZE (unat (data_size header) - total_read),
                rb @ take (min WAV_BUFFER_SIZE (unat (data_size header) - total_read)) file))"
proof -
  define n where "n = min WAV_BUFFER_SIZE (unat (data_size header) - total_read)"
  have to_read: "(if unat (data_size header) - total_read > WAV_BUFFER_SIZE
                       then WAV_BUFFER_SIZE else unat (data_size header) - total_read) = n"
    by (simp add: n_def min_def)
  have n_pos: "0 < n" using lt by (simp add: n_def WAV_BUFFER_SIZE_def)
  have n_le: "n \<le> length file" using enough by (simp add: n_def)
  then have len: "length (take n file) = n" by simp
  have ne: "file \<noteq> []" using n_pos n_le by auto
  show ?thesis
    unfolding stream_block_def to_read n_def [symmetric]
    using n_pos n_le ch ne
    by (simp add: fread_def Let_def convert_block_def block_of_def xRingbufferSend_def)
qed

text \<open>
  The streaming loop on a file that is not mono, with every offer accepted and enough bytes
  left in the file: the rest of the declared payload is appended to the ring buffer.
\<close>

lemma stream_loop_stereo:
  assumes "num_channels h \<noteq> 1" "\<forall>k. room k"
    and "unat (data_size h) - total_read \<le> length fl"
  shows "stream_loop h room k fl buf total_read rb =
           Inr (rb @ take (unat (data_size h) - total_read) fl)"
  using assms
proof (induction h room k fl buf total_read rb rule: stream_loop.induct)
  case (1 h room k fl buf total_read rb)
  show ?case
  proof (cases "total_read < unat (data_size h)")
    case False
    then show ?thesis by (subst stream_loop.simps) simp
  next
    case True
    define n where "n = min WAV_BUFFER_SIZE (unat (data_size h) - total_read)"
    have n_le: "n \<le> unat (data_size h) - total_read" by (simp add: n_def)
    have blk: "stream_block h (room k) fl buf total_read rb =
       Inr (Some (drop n fl, take n fl @ drop n buf, total_read + n, rb @ take n fl))"
      using stream_block_stereo [OF "1.prems"(1) True "1.prems"(3)] "1.prems"(2)
      by (simp add: n_def)
    have rest: "unat (data_size h) - (total_read + n) \<le> length (drop n fl)"
      using "1.prems"(3) n_le by simp
    have ih: "stream_loop h room (Suc k) (drop n fl) (take n fl @ drop n buf)
                (total_read + n) (rb @ take n fl) =
              Inr ((rb @ take n fl) @ take (unat (data_size h) - (total_read + n)) (drop n fl))"
      using "1.IH" [OF True blk refl refl refl refl "1.prems"(1,2) rest] .
    have "take n fl @ take (unat (data_size h) - (total_read + n)) (drop n fl) =
          take (unat (data_size h) - total_read) fl"
    proof -
      have "n + (unat (data_size h) - (total_read + n)) = unat (data_size h) - total_read"
        using n_le by arith
      then show ?thesis by (simp add: take_add [symmetric])
    qed
    then show ?thesis
      using True by (subst stream_loop.simps) (simp add: blk ih)
  qed
qed

lemma play_stereo_file:
  "wav_player_play_file (\<lambda>name. Some stereo_file) (\<lambda>k. True) stack ''/sdcard/test.wav''
     wav_player_init = Inr (ESP_OK, stereo_played)"
proof -
  let ?h = "parse_header (take wav_header_size stereo_file)"
  have tags: "strncmp (riff ?h) (c_str ''RIFF'') 4 = 0"
      "strncmp (wave ?h) (c_str ''WAVE'') 4 = 0"
      "strncmp (data ?h) (c_str ''data'') 4 = 0"
    by (simp_all add: stereo_header tag_check)
  have len: "\<not> length stereo_file < wav_header_size"
    by (simp add: stereo_file_def wav_bytes_def wav_header_size_def)
  have ch: "num_channels ?h \<noteq> 1" by (simp add: stereo_header)
  have enough: "unat (data_size ?h) - 0 \<le> length (drop wav_header_size stereo_file)"
    by (simp add: stereo_header) (simp add: stereo_file_def wav_bytes_def wav_header_size_def)
  have payload: "take (unat (data_size ?h)) (drop wav_header_size stereo_file) = [1, 2, 3, 4, 5, 6, 7, 8]"
    by (simp add: stereo_header) (simp add: stereo_file_def wav_bytes_def wav_header_size_def)
  have loop: "stream_loop ?h (\<lambda>k. True) 0 (drop wav_header_size stereo_file) buf 0 rb =
      Inr (rb @ [1, 2, 3, 4, 5, 6, 7, 8])" for buf rb
    using stream_loop_stereo [OF ch _ enough, of "\<lambda>k. True"] by (simp add: payload)
  show ?thesis
    using tags len
    by (simp add: wav_player_play_file_def Let_def loop wav_player_init_def stereo_played_def)
qed

text \<open>One pass of a running playback task with a successful write moves all pending bytes
  to the output.\<close>

lemma playback_task_pass:
  assumes "\<not> playback_task_suspended s"
  shows "i2s_out (playback_task (\<lambda>k. ESP_OK) 1 s) = i2s_out s @ ring_buffer s"
    and "ring_buffer (playback_task (\<lambda>k. ESP_OK) 1 s) = []"
  using assms
  by (simp_all add: playback_task_iter_def xRingbufferReceive_def vRingbufferReturnItem_def)

text \<open>
  Claim C1. For a file that opens, holds a header which passes the three tag checks, declares
  2 channels and a data length \<open>L\<close>, and holds at least \<open>L\<close> bytes after the header (so every
  read returns what was asked for), with every offer to the ring buffer accepted, the call
  succeeds and appends to the ring buffer exactly the first \<open>L\<close> payload bytes, in order;
  the next pass of the playback task hands exactly the queued bytes to the output.
\<close>

theorem play_file_streams_payload:
  assumes opened: "fs filename = Some fl" "wav_header_size \<le> length fl"
    and h: "h = parse_header (take wav_header_size fl)"
    and tags: "strncmp (riff h) (c_str ''RIFF'') 4 = 0"
              "strncmp (wave h) (c_str ''WAVE'') 4 = 0"
              "strncmp (data h) (c_str ''data'') 4 = 0"
    and ch: "num_channels h = 2"
    and reads: "unat (data_size h) \<le> length fl - wav_header_size"
    and room: "\<forall>k. room k"
  shows "\<exists>s'. wav_player_play_file fs room stack filename s = Inr (ESP_OK, s') \<and>
           ring_buffer s' = (if is_playing s then [] else ring_buffer s) @
                              take (unat (data_size h)) (drop wav_header_size fl) \<and>
           is_playing s' \<and> \<not> playback_task_suspended s' \<and> i2s_out s' = i2s_out s \<and>
           i2s_out (playback_task (\<lambda>k. ESP_OK) 1 s') = i2s_out s @ ring_buffer s'"
proof -
  have ch': "num_channels h \<noteq> 1" using ch by simp
  have enough: "unat (data_size h) - 0 \<le> length (drop wav_header_size fl)"
    using reads by simp
  have loop: "\<And>buf rb. stream_loop h room 0 (drop wav_header_size fl) buf 0 rb =
      Inr (rb @ take (unat (data_size h)) (drop wav_header_size fl))"
    using stream_loop_stereo [OF ch' room enough] by simp
  have run: "wav_player_play_file fs room stack filename s =
      Inr (ESP_OK, (if is_playing s then snd (wav_player_stop s) else s)
             \<lparr> is_playing := True,
               ring_buffer := (if is_playing s then [] else ring_buffer s) @
                                take (unat (data_size h)) (drop wav_header_size fl),
               playback_task_suspended := False \<rparr>)"
    (is "_ = Inr (ESP_OK, ?s')")
    using opened tags
    by (simp add: wav_player_play_file_def Let_def h [symmetric] loop stop_if_playing)
  have out: "i2s_out ?s' = i2s_out s" by (simp add: stop_if_playing)
  have "\<not> playback_task_suspended ?s'" by simp
  from playback_task_pass(1) [OF this]
  have "i2s_out (playback_task (\<lambda>k. ESP_OK) 1 ?s') = i2s_out s @ ring_buffer ?s'"
    by (simp only: out)
  with run out show ?thesis
    by (intro exI [of _ ?s']) simp
qed

theorem play_file_streams_payload_witness:
  "\<exists>s'. wav_player_play_file (\<lambda>name. Some stereo_file) (\<lambda>k. True) (\<lambda>i. 0) ''/sdcard/test.wav''
            wav_player_init = Inr (ESP_OK, s') \<and>
        ring_buffer s' = [1, 2, 3, 4, 5, 6, 7, 8] \<and> is_playing s' \<and>
        i2s_out (playback_task (\<lambda>k. ESP_OK) 1 s') = [1, 2, 3, 4, 5, 6, 7, 8]"
proof -
  have len: "wav_header_size \<le> length stereo_file"
    by (simp add: stereo_file_def wav_bytes_def wav_header_size_def)
  have tags: "strncmp (riff (parse_header (take wav_header_size stereo_file))) (c_str ''RIFF'') 4 = 0"
      "strncmp (wave (parse_header (take wav_header_size stereo_file))) (c_str ''WAVE'') 4 = 0"
      "strncmp (data (parse_header (take wav_header_size stereo_file))) (c_str ''data'') 4 = 0"
    by (simp_all add: stereo_header tag_check)
  have ch: "num_channels (parse_header (take wav_header_size stereo_file)) = 2"
    by (simp add: stereo_header)
  have reads: "unat (data_size (parse_header (take wav_header_size stereo_file)))
                 \<le> length stereo_file - wav_header_size"
    by (simp add: stereo_header) (simp add: stereo_file_def wav_bytes_def wav_header_size_def)
  have room: "\<forall>k. (\<lambda>k. True) k" by simp
  have payload: "take (unat (data_size (parse_header (take wav_header_size stereo_file))))
                   (drop wav_header_size stereo_file) = [1, 2, 3, 4, 5, 6, 7, 8]"
    by (simp add: stereo_header) (simp add: stereo_file_def wav_bytes_def wav_header_size_def)
  have opened: "(\<lambda>name. Some stereo_file) ''/sdcard/test.wav'' = Some stereo_file" by simp
  from play_file_streams_payload [where s = wav_player_init and stack = "\<lambda>i. 0",
      OF opened len refl tags ch reads room]
  obtain s' where s':
      "wav_player_play_file (\<lambda>name. Some stereo_file) (\<lambda>k. True) (\<lambda>i. 0) ''/sdcard/test.wav''
         wav_player_init = Inr (ESP_OK, s')"
      "ring_buffer s' = (if is_playing wav_player_init then [] else ring_buffer wav_player_init) @
         take (unat (data_size (parse_header (take wav_header_size stereo_file))))
           (drop wav_header_size stereo_file)"
      "is_playing s'"
      "i2s_out (playback_task (\<lambda>k. ESP_OK) 1 s') = i2s_out wav_player_init @ ring_buffer s'"
    by blast
  have ring: "ring_buffer s' = [1, 2, 3, 4, 5, 6, 7, 8]"
    using s'(2) by (simp add: payload wav_player_init_def)
  have out: "i2s_out (playback_task (\<lambda>k. ESP_OK) 1 s') = [1, 2, 3, 4, 5, 6, 7, 8]"
    using s'(4) by (simp only: ring) (simp add: wav_player_init_def)
  from s'(1) ring s'(3) out show ?thesis
    by blast
qed

text \<open>
  Claim C8. For a file whose header differs from \<open>RIFF\<close>, \<open>WAVE\<close> or \<open>data\<close> in one of
  the three tag fields, the call returns \<open>ESP_ERR_INVALID_ARG\<close>, queues no byte in the ring
  buffer, writes nothing to the output, and leaves the player not playing.
\<close>

theorem play_file_bad_tag:
  assumes opened: "fs filename = Some fl" "wav_header_size \<le> length fl"
    and h: "h = parse_header (take wav_header_size fl)"
    and bad: "riff h \<noteq> map of_char ''RIFF'' \<or> wave h \<noteq> map of_char ''WAVE'' \<or>
              data h \<noteq> map of_char ''data''"
  shows "\<exists>s'. wav_player_play_file fs room stack filename s = Inr (ESP_ERR_INVALID_ARG, s') \<and>
           \<not> wav_player_is_playing s' \<and>
           ring_buffer s' = (if is_playing s then [] else ring_buffer s) \<and>
           i2s_out s' = i2s_out s"
proof -
  have "strncmp (riff h) (c_str ''RIFF'') 4 \<noteq> 0 \<or> strncmp (wave h) (c_str ''WAVE'') 4 \<noteq> 0 \<or>
        strncmp (data h) (c_str ''data'') 4 \<noteq> 0"
    using bad header_tag_lengths [OF opened(2)] by (simp add: tag_check h)
  then show ?thesis
    using opened
    by (simp add: wav_player_play_file_def Let_def h [symmetric] wav_player_is_playing_def
          stop_if_playing)
qed

theorem play_file_bad_tag_witness:
  "(\<exists>s'. wav_player_play_file (\<lambda>name. Some bad_file) (\<lambda>k. True) (\<lambda>i. 0) ''/sdcard/test.wav''
            wav_player_init = Inr (ESP_ERR_INVALID_ARG, s') \<and>
         \<not> wav_player_is_playing s' \<and> ring_buffer s' = [] \<and> i2s_out s' = []) \<and>
   (\<exists>s'. wav_player_play_file (\<lambda>name. Some bad_file) (\<lambda>k. True) (\<lambda>i. 0) ''/sdcard/test.wav''
            stereo_played = Inr (ESP_ERR_INVALID_ARG, s') \<and>
         \<not> wav_player_is_playing s' \<and> ring_buffer s' = [] \<and> i2s_out s' = [])"
proof -
  have opened: "(\<lambda>name. Some bad_file) ''/sdcard/test.wav'' = Some bad_file" by simp
  have len: "wav_header_size \<le> length bad_file"
    by (simp add: bad_file_def wav_bytes_def wav_header_size_def)
  have bad: "riff (parse_header (take wav_header_size bad_file)) \<noteq> map of_char ''RIFF'' \<or>
             wave (parse_header (take wav_header_size bad_file)) \<noteq> map of_char ''WAVE'' \<or>
             data (parse_header (take wav_header_size bad_file)) \<noteq> map of_char ''data''"
    by (simp add: bad_header)
  from play_file_bad_tag [where s = wav_player_init and room = "\<lambda>k. True" and stack = "\<lambda>i. 0",
      OF opened len refl bad]
    play_file_bad_tag [where s = stereo_played and room = "\<lambda>k. True" and stack = "\<lambda>i. 0",
      OF opened len refl bad]
  show ?thesis
    by (simp add: wav_player_init_def stereo_played_def)
qed

section \<open>Mono up-mix and the stream buffer\<close>

lemma cat_split16: "word_cat (ucast (drop_bit 8 v) :: u8) (ucast v :: u8) = (v :: u16)"
  by (rule bit_word_eqI) (auto simp: bit_word_cat_iff bit_ucast_iff bit_drop_bit_eq)

lemma load16_ok: "2 * i + 1 < length buf \<Longrightarrow> load16 buf i = Inr (sample_at buf i)"
  by (simp add: load16_def sample_at_def)

lemma store16_ok:
  assumes "2 * j + 1 < length buf"
  shows "\<exists>buf'. store16 buf j v = Inr buf' \<and> length buf' = length buf \<and>
           sample_at buf' j = v \<and>
           (\<forall>k. k \<noteq> j \<longrightarrow> sample_at buf' k = sample_at buf k)"
  using assms
  by (auto simp: store16_def sample_at_def cat_split16 nth_list_update)

text \<open>
  The in-place expansion when the buffer has room for \<open>2 * n\<close> samples: walking from the
  last sample down never overwrites a sample that is still to be read.
\<close>

lemma upmix_loop_correct:
  assumes "4 * n \<le> length buf"
  shows "\<exists>buf'. upmix_loop n buf = Inr buf' \<and> length buf' = length buf \<and>
           (\<forall>i < n. sample_at buf' (2 * i) = sample_at buf i \<and>
                     sample_at buf' (2 * i + 1) = sample_at buf i) \<and>
           (\<forall>k \<ge> 2 * n. sample_at buf' k = sample_at buf k)"
  using assms
proof (induction n arbitrary: buf)
  case 0
  show ?case by simp
next
  case (Suc n)
  have in1: "2 * n + 1 < length buf" using Suc.prems by simp
  have in2: "2 * (n * 2) + 1 < length buf" using Suc.prems by simp
  obtain b1 where b1: "store16 buf (n * 2) (sample_at buf n) = Inr b1" "length b1 = length buf"
      "sample_at b1 (n * 2) = sample_at buf n"
      "\<forall>k. k \<noteq> n * 2 \<longrightarrow> sample_at b1 k = sample_at buf k"
    using store16_ok [OF in2] by blast
  have in3: "2 * (n * 2 + 1) + 1 < length b1" using Suc.prems b1(2) by simp
  obtain b2 where b2: "store16 b1 (n * 2 + 1) (sample_at buf n) = Inr b2" "length b2 = length b1"
      "sample_at b2 (n * 2 + 1) = sample_at buf n"
      "\<forall>k. k \<noteq> n * 2 + 1 \<longrightarrow> sample_at b2 k = sample_at b1 k"
    using store16_ok [OF in3] by blast
  have step: "upmix_loop (Suc n) buf = upmix_loop n b2"
    using b2(1) by (simp add: load16_ok [OF in1] b1(1))
  have "4 * n \<le> length b2" using Suc.prems b1(2) b2(2) by simp
  from Suc.IH [OF this] obtain buf' where r: "upmix_loop n b2 = Inr buf'" "length buf' = length b2"
      "\<forall>i < n. sample_at buf' (2 * i) = sample_at b2 i \<and> sample_at buf' (2 * i + 1) = sample_at b2 i"
      "\<forall>k \<ge> 2 * n. sample_at buf' k = sample_at b2 k"
    by blast
  have low: "\<And>i. i < 2 * n \<Longrightarrow> sample_at b2 i = sample_at buf i"
    using b1(4) b2(4) by simp
  have hi: "\<And>k. 2 * Suc n \<le> k \<Longrightarrow> sample_at b2 k = sample_at buf k"
    using b1(4) b2(4) by simp
  have s0: "sample_at b2 (2 * n) = sample_at buf n"
    using b1(3) b2(4) by (simp add: mult.commute)
  have s1: "sample_at b2 (2 * n + 1) = sample_at buf n"
    using b2(3) by (simp add: mult.commute)
  have "\<forall>i < Suc n. sample_at buf' (2 * i) = sample_at buf i \<and>
                      sample_at buf' (2 * i + 1) = sample_at buf i"
  proof (intro allI impI)
    fix i assume "i < Suc n"
    show "sample_at buf' (2 * i) = sample_at buf i \<and> sample_at buf' (2 * i + 1) = sample_at buf i"
    proof (cases "i = n")
      case True
      then show ?thesis using r(4) s0 s1 by simp
    next
      case False
      with \<open>i < Suc n\<close> have "i < n" by simp
      then show ?thesis using r(3) low [of i] by simp
    qed
  qed
  moreover have "\<forall>k \<ge> 2 * Suc n. sample_at buf' k = sample_at buf k"
    using r(4) hi by simp
  ultimately show ?case
    using r(1,2) b1(2) b2(2) by (simp add: step del: upmix_loop.simps)
qed

lemma upmix_loop_overflow:
  assumes "length buf = WAV_BUFFER_SIZE" "1024 < n" "n \<le> 2048"
  shows "upmix_loop n buf = Inl (OutOfBounds (4 * (n - 1)))"
proof -
  obtain i where n: "n = Suc i" using assms(2) by (cases n) simp_all
  have "2 * i + 1 < length buf" using assms by (simp add: n WAV_BUFFER_SIZE_def)
  moreover have "\<not> 2 * (i * 2) + 1 < length buf" using assms by (simp add: n WAV_BUFFER_SIZE_def)
  ultimately show ?thesis
    by (simp add: n load16_def store16_def)
qed

lemma stack_buffer_length: "length (map stack [0..<WAV_BUFFER_SIZE]) = WAV_BUFFER_SIZE"
  by simp

lemma upmix_loop_in_bounds:
  assumes "length buf = WAV_BUFFER_SIZE" "b \<le> 2049"
  shows "\<exists>buf'. upmix_loop (b div 2) buf = Inr buf'"
proof -
  have "4 * (b div 2) \<le> length buf" using assms by (simp add: WAV_BUFFER_SIZE_def)
  from upmix_loop_correct [OF this] show ?thesis by blast
qed

text \<open>
  A mono block of at most 2048 bytes: every source sample ends up in both output slots, the
  doubled byte count is offered to the ring buffer, and \<open>total_read\<close> advances by the source
  byte count.
\<close>

lemma stream_block_mono:
  assumes ch: "num_channels h = 1"
    and lt: "total_read < unat (data_size h)"
    and n: "n = min WAV_BUFFER_SIZE (unat (data_size h) - total_read)"
    and small: "n \<le> 2048" and enough: "n \<le> length fl"
    and buf: "length buf = WAV_BUFFER_SIZE"
  shows "\<exists>buf'. stream_block h room_k fl buf total_read rb =
            Inr (Some (drop n fl, buf', total_read + n,
                       snd (xRingbufferSend room_k rb (take (2 * n) buf')))) \<and>
          length buf' = WAV_BUFFER_SIZE \<and>
          (\<forall>i < n div 2. sample_at buf' (2 * i) = sample_at (take n fl) i \<and>
                          sample_at buf' (2 * i + 1) = sample_at (take n fl) i)"
proof -
  have to_read: "(if unat (data_size h) - total_read > WAV_BUFFER_SIZE
                    then WAV_BUFFER_SIZE else unat (data_size h) - total_read) = n"
    by (simp add: n min_def)
  have n_pos: "0 < n" using lt by (simp add: n WAV_BUFFER_SIZE_def)
  have m: "min (length fl) n = n" using enough by simp
  have ne: "fl \<noteq> []" using n_pos enough by auto
  let ?b = "take n fl @ drop n buf"
  have blen: "length ?b = WAV_BUFFER_SIZE"
    using buf small enough by (simp add: WAV_BUFFER_SIZE_def)
  have "4 * (n div 2) \<le> length ?b"
    using small blen by (simp add: WAV_BUFFER_SIZE_def)
  from upmix_loop_correct [OF this] obtain buf' where
    up: "upmix_loop (n div 2) ?b = Inr buf'" "length buf' = length ?b"
      "\<forall>i < n div 2. sample_at buf' (2 * i) = sample_at ?b i \<and>
                      sample_at buf' (2 * i + 1) = sample_at ?b i"
    by blast
  have src: "sample_at ?b i = sample_at (take n fl) i" if "i < n div 2" for i
  proof -
    from that have "2 * i + 1 < n" by arith
    then show ?thesis using enough by (simp add: sample_at_def nth_append)
  qed
  have fits: "n * 2 \<le> length buf'"
    using up(2) blen small by (simp add: WAV_BUFFER_SIZE_def)
  have "stream_block h room_k fl buf total_read rb =
          Inr (Some (drop n fl, buf', total_read + n,
                     snd (xRingbufferSend room_k rb (take (2 * n) buf'))))"
    unfolding stream_block_def to_read
    using n_pos ch ne fits
    by (simp add: fread_def Let_def m convert_block_def I2S_CHANNELS_def up(1) block_of_def
          mult.commute del: upmix_loop.simps)
  moreover have "length buf' = WAV_BUFFER_SIZE" using up(2) blen by simp
  ultimately show ?thesis using up(3) src by simp
qed

lemma stream_block_mono_overflow:
  assumes ch: "num_channels h = 1"
    and n: "n = min WAV_BUFFER_SIZE (unat (data_size h) - total_read)"
    and big: "2050 \<le> n" and enough: "n \<le> length fl"
    and buf: "length buf = WAV_BUFFER_SIZE"
  shows "stream_block h room_k fl buf total_read rb = Inl (OutOfBounds (4 * (n div 2 - 1)))"
proof -
  have to_read: "(if unat (data_size h) - total_read > WAV_BUFFER_SIZE
                    then WAV_BUFFER_SIZE else unat (data_size h) - total_read) = n"
    by (simp add: n min_def)
  have len: "length (take n fl) = n" using enough by simp
  have n_le: "n \<le> WAV_BUFFER_SIZE" by (simp add: n)
  have blen: "length (take n fl @ drop n buf) = WAV_BUFFER_SIZE"
    using buf n_le len by simp
  have "1024 < n div 2" "n div 2 \<le> 2048"
    using big n_le by (simp_all add: WAV_BUFFER_SIZE_def)
  from upmix_loop_overflow [OF blen this]
  have up: "upmix_loop (n div 2) (take n fl @ drop n buf) = Inl (OutOfBounds (4 * (n div 2 - 1)))" .
  have ne: "fl \<noteq> []" using big enough by auto
  have m: "min (length fl) n = n" using enough by simp
  show ?thesis
    unfolding stream_block_def to_read
    using big ch ne
    by (simp add: fread_def Let_def m convert_block_def I2S_CHANNELS_def up
             del: upmix_loop.simps)
qed

text \<open>
  Claim C3 (the code departs from it). For a mono block of 4096 bytes the first store of the
  expansion lands at byte offset 8188 of the 4096-byte buffer, whatever the buffer held; a
  block of 2050 bytes is the smallest whose expansion leaves the buffer, at offset 4096.
\<close>

theorem upmix_writes_past_buffer:
  "upmix_loop (4096 div 2) (map stack [0..<WAV_BUFFER_SIZE]) = Inl (OutOfBounds 8188) \<and>
   upmix_loop (2050 div 2) (map stack [0..<WAV_BUFFER_SIZE]) = Inl (OutOfBounds 4096)"
  using upmix_loop_overflow [OF stack_buffer_length, of 2048 stack]
    upmix_loop_overflow [OF stack_buffer_length, of 1025 stack]
  by simp

theorem upmix_writes_past_buffer_witness:
  "upmix_loop 2048 (replicate 4096 0) = Inl (OutOfBounds 8188)"
proof -
  have "map (\<lambda>i. 0 :: u8) [0..<WAV_BUFFER_SIZE] = replicate 4096 0"
    by (simp add: WAV_BUFFER_SIZE_def map_replicate_const)
  with upmix_writes_past_buffer [of "\<lambda>i. 0"] show ?thesis by simp
qed

text \<open>
  Claim C2 (the code departs from it). A mono file that declares 4096 payload bytes is read as
  one block of 2048 samples; its expansion leaves the stream buffer at byte offset 8188, so
  the call has no defined result and no up-mixed block is offered. Blocks of at most 1024
  samples are expanded and accounted as the claim says (\<open>stream_block_mono\<close>).
\<close>

theorem play_file_mono_block_overflows:
  "wav_player_play_file (\<lambda>name. Some mono_file) room stack ''/sdcard/test.wav'' wav_player_init =
     Inl (OutOfBounds 8188)"
proof -
  let ?h = "parse_header (take wav_header_size mono_file)"
  have tags: "strncmp (riff ?h) (c_str ''RIFF'') 4 = 0"
      "strncmp (wave ?h) (c_str ''WAVE'') 4 = 0"
      "strncmp (data ?h) (c_str ''data'') 4 = 0"
    by (simp_all add: mono_header tag_check)
  have len: "\<not> length mono_file < wav_header_size"
    by (simp add: mono_file_def wav_bytes_def wav_header_size_def)
  have payload: "length (drop wav_header_size mono_file) = 4096"
    by (simp add: mono_file_def wav_bytes_def wav_header_size_def)
  have payload': "length mono_file - wav_header_size = 4096"
    using payload by simp
  have blk: "stream_block ?h (room 0) (drop wav_header_size mono_file)
               (map stack [0..<WAV_BUFFER_SIZE]) 0 rb = Inl (OutOfBounds (4 * (4096 div 2 - 1)))" for rb
    by (rule stream_block_mono_overflow)
       (simp_all add: mono_header payload' WAV_BUFFER_SIZE_def)
  have loop: "stream_loop ?h room 0 (drop wav_header_size mono_file)
               (map stack [0..<WAV_BUFFER_SIZE]) 0 rb = Inl (OutOfBounds 8188)" for rb
    by (subst stream_loop.simps) (simp add: blk, simp add: mono_header)
  show ?thesis
    using tags len
    by (simp add: wav_player_play_file_def Let_def loop wav_player_init_def)
qed

theorem play_file_mono_block_overflows_witness:
  "wav_player_play_file (\<lambda>name. Some mono_file) (\<lambda>k. True) (\<lambda>i. 0) ''/sdcard/test.wav''
     wav_player_init = Inl (OutOfBounds 8188)"
  using play_file_mono_block_overflows [of "\<lambda>k. True" "\<lambda>i. 0"] .

section \<open>Stop and the playback task\<close>

text \<open>A pass of the playback task never changes \<open>is_playing\<close>.\<close>

lemma playback_task_iter_playing: "is_playing (playback_task_iter ret s) = is_playing s"
  by (simp add: playback_task_iter_def xRingbufferReceive_def)

lemma playback_task_playing: "is_playing (playback_task rets n s) = is_playing s"
  by (induction n) (simp_all add: Let_def playback_task_iter_playing)

lemma playback_task_iter_ring:
  "ring_buffer s = [] \<Longrightarrow> ring_buffer (playback_task_iter ret s) = []"
  by (simp add: playback_task_iter_def xRingbufferReceive_def)

lemma playback_task_ring:
  "ring_buffer s = [] \<Longrightarrow> ring_buffer (playback_task rets n s) = []"
  by (induction n) (simp_all add: Let_def playback_task_iter_ring)

lemma play_file_idle_empty:
  assumes "idle_empty s" "wav_player_play_file fs room stack filename s = Inr (r, s')"
  shows "idle_empty s'"
proof -
  have a: "idle_empty (if is_playing s then snd (wav_player_stop s) else s)"
    using assms(1) by (auto simp: idle_empty_def wav_player_stop_def rb_drain_empty)
  show ?thesis
    using assms(2) a
    by (auto simp: wav_player_play_file_def Let_def idle_empty_def
             split: option.splits if_splits sum.splits)
qed

text \<open>In every reachable state, a player that is not playing has an empty ring buffer.\<close>

lemma reachable_idle_empty: "reachable s \<Longrightarrow> idle_empty s"
proof (induction rule: reachable.induct)
  case init
  show ?case by (simp add: idle_empty_def wav_player_init_def)
next
  case (play s fs room stack filename r s')
  then show ?case by (blast intro: play_file_idle_empty)
next
  case (stop s)
  then show ?case by (auto simp: idle_empty_def wav_player_stop_def rb_drain_empty)
next
  case (task s rets n)
  then show ?case
    by (auto simp: idle_empty_def playback_task_playing playback_task_ring)
qed

text \<open>
  Claim C10. Stopping always succeeds; a second stop right after the first succeeds and
  changes nothing; the player is not playing afterwards; stopping a player that is not
  playing returns success and leaves the state as it was; and in every state the module can
  reach, nothing is left in the ring buffer after a stop.
\<close>

theorem stop_idempotent:
  "fst (wav_player_stop s) = ESP_OK \<and>
   wav_player_stop (snd (wav_player_stop s)) = (ESP_OK, snd (wav_player_stop s)) \<and>
   \<not> wav_player_is_playing (snd (wav_player_stop s)) \<and>
   (\<not> wav_player_is_playing s \<longrightarrow> wav_player_stop s = (ESP_OK, s)) \<and>
   (reachable s \<longrightarrow> ring_buffer (snd (wav_player_stop s)) = [])"
proof -
  have "reachable s \<longrightarrow> ring_buffer (snd (wav_player_stop s)) = []"
    using reachable_idle_empty [of s]
    by (auto simp: idle_empty_def wav_player_stop_def rb_drain_empty)
  then show ?thesis
    by (simp add: wav_player_stop_def wav_player_is_playing_def)
qed

theorem stop_idempotent_witness:
  "wav_player_stop wav_player_init = (ESP_OK, wav_player_init) \<and>
   wav_player_stop stereo_played =
     (ESP_OK, \<lparr> is_playing = False, ring_buffer = [], playback_task_suspended = True, i2s_out = [] \<rparr>) \<and>
   wav_player_stop (snd (wav_player_stop stereo_played)) = wav_player_stop stereo_played"
proof -
  have r: "reachable stereo_played"
    using reachable.play [OF reachable.init play_stereo_file] .
  have idle: "\<not> wav_player_is_playing wav_player_init"
    by (simp add: wav_player_is_playing_def wav_player_init_def)
  from stop_idempotent [of wav_player_init] idle
  have a: "wav_player_stop wav_player_init = (ESP_OK, wav_player_init)" by blast
  from stop_idempotent [of stereo_played] r
  have b: "fst (wav_player_stop stereo_played) = ESP_OK"
      "wav_player_stop (snd (wav_player_stop stereo_played)) =
         (ESP_OK, snd (wav_player_stop stereo_played))"
      "ring_buffer (snd (wav_player_stop stereo_played)) = []"
    by blast+
  have c: "snd (wav_player_stop stereo_played) =
      \<lparr> is_playing = False, ring_buffer = [], playback_task_suspended = True, i2s_out = [] \<rparr>"
    using b(3) by (simp add: wav_player_stop_def stereo_played_def)
  from a b(1,2) c show ?thesis
    by (simp add: prod_eq_iff)
qed

text \<open>
  Claim C4 (the code departs from it). After \<open>stereo_file\<close> has been queued, one pass of the
  playback task writes the 8 payload bytes to the output and empties the ring buffer. However
  many passes follow, and whatever the writes return, the player still reports playing and
  the task is not suspended: the receive waits without bound and never returns NULL.
\<close>

theorem playback_task_never_idles:
  "wav_player_play_file (\<lambda>name. Some stereo_file) (\<lambda>k. True) stack ''/sdcard/test.wav''
     wav_player_init = Inr (ESP_OK, stereo_played) \<and>
   ring_buffer (playback_task (\<lambda>k. ESP_OK) 1 stereo_played) = [] \<and>
   i2s_out (playback_task (\<lambda>k. ESP_OK) 1 stereo_played) = [1, 2, 3, 4, 5, 6, 7, 8] \<and>
   wav_player_is_playing (playback_task rets n stereo_played) \<and>
   \<not> playback_task_suspended (playback_task rets n stereo_played)"
proof -
  have ring: "ring_buffer (playback_task (\<lambda>k. ESP_OK) 1 stereo_played) = []"
    by (simp add: stereo_played_def playback_task_iter_def xRingbufferReceive_def
          vRingbufferReturnItem_def Let_def)
  have out: "i2s_out (playback_task (\<lambda>k. ESP_OK) 1 stereo_played) = [1, 2, 3, 4, 5, 6, 7, 8]"
    by (simp add: stereo_played_def playback_task_iter_def xRingbufferReceive_def
          vRingbufferReturnItem_def Let_def)
  have susp: "playback_task_suspended (playback_task rets n s) = playback_task_suspended s" for s
    by (induction n) (simp_all add: Let_def playback_task_iter_def xRingbufferReceive_def)
  have playing: "wav_player_is_playing (playback_task rets n stereo_played)"
    by (simp add: wav_player_is_playing_def playback_task_playing) (simp add: stereo_played_def)
  have running: "\<not> playback_task_suspended (playback_task rets n stereo_played)"
    by (simp add: susp) (simp add: stereo_played_def)
  from play_stereo_file ring out playing running show ?thesis
    by (intro conjI)
qed

theorem playback_task_never_idles_witness:
  "wav_player_is_playing (playback_task (\<lambda>k. ESP_OK) 100 stereo_played) \<and>
   ring_buffer (playback_task (\<lambda>k. ESP_OK) 1 stereo_played) = []"
  using playback_task_never_idles [of "\<lambda>i. 0" "\<lambda>k. ESP_OK" 100] by (elim conjE) (intro conjI)

end
